theory Spec2Isabelle
  imports Complex_Main
begin

chapter \<open>Embedding of the workspace coordination code\<close>

text \<open>
  The TypeScript sources are embedded function by function. Conventions:
  \<^item> a JavaScript string is a \<open>string\<close> (a list of 8-bit characters);
  \<^item> a JavaScript number that holds a count, a timestamp or a sequence number is a
    \<open>nat\<close>: the runtime computes such values exactly as long as they stay below
    \<open>2 ^ 53\<close>; a quotient of two counts is a \<open>rat\<close>; a number read from text with
    \<open>parseInt\<close> is a \<open>js_number\<close>, the double nearest to the digits' value;
  \<^item> \<open>Date.now()\<close> and \<open>Math.random().toString(36).substr(2, 9)\<close> are inputs of the
    call that reads them (\<open>now\<close>, \<open>rid\<close>);
  \<^item> a JSON text written with \<open>JSON.stringify\<close> and read back with \<open>JSON.parse\<close>
    is the record it encodes;
  \<^item> an \<open>EventEmitter\<close> is the list of the events emitted so far, oldest first;
  \<^item> each asynchronous method of the two orchestrators runs to completion before the
    next one starts; on the bridge, \<open>initialize\<close> and the reconnect timer callback are cut
    at their awaits, and other handlers may run in between.
\<close>

section \<open>Strings\<close>

definition digit_char :: "nat \<Rightarrow> char" where
  "digit_char n = ''0123456789'' ! (n mod 10)"

text \<open>Decimal rendering of a number inside a template literal.\<close>

fun show_nat :: "nat \<Rightarrow> string" where
  "show_nat n = (if n < 10 then [digit_char n] else show_nat (n div 10) @ [digit_char (n mod 10)])"

declare show_nat.simps [simp del]

text \<open>\<open>s.startsWith(p)\<close>.\<close>

fun starts_with :: "string \<Rightarrow> string \<Rightarrow> bool" where
  "starts_with [] s = True"
| "starts_with (p # ps) [] = False"
| "starts_with (p # ps) (c # cs) = (p = c \<and> starts_with ps cs)"

text \<open>\<open>s.includes(p)\<close>.\<close>

fun str_includes :: "string \<Rightarrow> string \<Rightarrow> bool" where
  "str_includes p [] = starts_with p []"
| "str_includes p (c # cs) = (starts_with p (c # cs) \<or> str_includes p cs)"

text \<open>The character class \<open>\d\<close> of a regular expression without the unicode flag.\<close>

definition is_digit :: "char \<Rightarrow> bool" where
  "is_digit c = (c \<in> set ''0123456789'')"

definition digit_val :: "char \<Rightarrow> nat" where
  "digit_val c = of_char c - 48"

text \<open>The integer a string of decimal digits denotes.\<close>

definition decimal_value :: "string \<Rightarrow> nat" where
  "decimal_value ds = foldl (\<lambda>n c. 10 * n + digit_val c) 0 ds"

text \<open>
  The values a JavaScript number takes when it is read from a string of decimal digits: a
  double that is a non-negative integer, or \<open>Infinity\<close> (which \<open>JSON.stringify\<close> writes as
  \<open>null\<close>).
\<close>

datatype js_number = JsInt nat | JsInfinity

text \<open>The number of binary digits of \<open>n\<close>.\<close>

fun bit_length :: "nat \<Rightarrow> nat" where
  "bit_length n = (if n = 0 then 0 else Suc (bit_length (n div 2)))"

declare bit_length.simps [simp del]

text \<open>
  The Number value of a non-negative integer: the integer itself below \<open>2 ^ 53\<close>; above,
  the nearest double (a 53-bit significand \<open>q\<close> times \<open>2 ^ e\<close>), a tie going to the even
  significand, and \<open>Infinity\<close> once the rounded value reaches \<open>2 ^ 1024\<close>.
\<close>

definition to_double :: "nat \<Rightarrow> js_number" where
  "to_double n =
     (if n < 2 ^ 53 then JsInt n
      else (let e = bit_length n - 53;
                q = n div 2 ^ e;
                r = n mod 2 ^ e;
                q' = (if 2 ^ (e - 1) < r \<or> (r = 2 ^ (e - 1) \<and> odd q) then q + 1 else q)
            in if 2 ^ 1024 \<le> q' * 2 ^ e then JsInfinity else JsInt (q' * 2 ^ e)))"

text \<open>
  \<open>parseInt(ds)\<close> on a non-empty string of decimal digits: the Number value of the integer
  the digits denote. (Past twenty significant digits the language standard lets an engine
  read the remaining digits as zeros; the embedding takes the correctly rounded value
  throughout.)
\<close>

definition parseInt :: "string \<Rightarrow> js_number" where
  "parseInt ds = to_double (decimal_value ds)"

section \<open>Consensus tally of the example runners\<close>

record vote_entry =
  vote :: string
  reasoning :: string

datatype consensus_outcome = approved | rejected | deadlock

record ConsensusResult =
  cr_proposalId :: string
  cr_result :: consensus_outcome
  cr_confidence :: rat
  cr_votes :: "(string \<times> vote_entry) list"

text \<open>
  \<open>Object.values(votes).reduce((acc, {vote}) => { acc[vote] = (acc[vote] || 0) + 1; return acc }, {})\<close>:
  the votes object is the list of its entries in key order, the accumulator a map from
  the vote string to its count. (What the empty accumulator inherits from
  \<open>Object.prototype\<close> concerns keys other than \<open>agree\<close> and \<open>disagree\<close>, which are
  never read.)
\<close>

definition voteCount :: "(string \<times> vote_entry) list \<Rightarrow> (string \<rightharpoonup> nat)" where
  "voteCount votes =
     foldl (\<lambda>acc e. acc(vote (snd e) \<mapsto> (case acc (vote (snd e)) of None \<Rightarrow> 0 | Some c \<Rightarrow> c) + 1))
       Map.empty votes"

text \<open>\<open>voteCount.agree || 0\<close>.\<close>

definition count_or_zero :: "(string \<rightharpoonup> nat) \<Rightarrow> string \<Rightarrow> nat" where
  "count_or_zero acc k = (case acc k of None \<Rightarrow> 0 | Some c \<Rightarrow> c)"

text \<open>The shared body of both \<open>calculateConsensus\<close> methods; they differ in the id prefix.\<close>

definition tally :: "string \<Rightarrow> nat \<Rightarrow> (string \<times> vote_entry) list \<Rightarrow> ConsensusResult" where
  "tally prefix now votes =
     (let total = length votes;
          agree = count_or_zero (voteCount votes) ''agree'';
          disagree = count_or_zero (voteCount votes) ''disagree''
      in if (of_nat agree :: rat) > of_nat total / 2 then
           \<lparr>cr_proposalId = prefix @ show_nat now, cr_result = approved,
            cr_confidence = of_nat agree / of_nat total, cr_votes = votes\<rparr>
         else if (of_nat disagree :: rat) > of_nat total / 2 then
           \<lparr>cr_proposalId = prefix @ show_nat now, cr_result = rejected,
            cr_confidence = of_nat disagree / of_nat total, cr_votes = votes\<rparr>
         else
           \<lparr>cr_proposalId = prefix @ show_nat now, cr_result = deadlock,
            cr_confidence = 1 / 2, cr_votes = votes\<rparr>)"

text \<open>\<open>MultiAgentExample.calculateConsensus\<close>.\<close>

definition calculateConsensus :: "nat \<Rightarrow> (string \<times> vote_entry) list \<Rightarrow> ConsensusResult" where
  "calculateConsensus now votes = tally ''consensus_'' now votes"

text \<open>\<open>OllamaMultiAgentExample.calculateConsensus\<close>.\<close>

definition ollama_calculateConsensus :: "nat \<Rightarrow> (string \<times> vote_entry) list \<Rightarrow> ConsensusResult" where
  "ollama_calculateConsensus now votes = tally ''ollama_consensus_'' now votes"

text \<open>The number of entries whose vote is \<open>v\<close>.\<close>

definition votes_for :: "string \<Rightarrow> (string \<times> vote_entry) list \<Rightarrow> nat" where
  "votes_for v votes = length (filter (\<lambda>e. vote (snd e) = v) votes)"

text \<open>Two vote objects with the same keys and the same votes; the reasoning strings are free.\<close>

definition same_ballots :: "(string \<times> vote_entry) list \<Rightarrow> (string \<times> vote_entry) list \<Rightarrow> bool" where
  "same_ballots votes votes' =
     (map fst votes = map fst votes' \<and> map (\<lambda>e. vote (snd e)) votes = map (\<lambda>e. vote (snd e)) votes')"

text \<open>A vote object used to exercise the tally.\<close>

definition ballots3 :: "(string \<times> vote_entry) list" where
  "ballots3 = [(''a1'', \<lparr>vote = ''disagree'', reasoning = ''too risky''\<rparr>),
               (''a2'', \<lparr>vote = ''disagree'', reasoning = ''''\<rparr>),
               (''a3'', \<lparr>vote = ''agree'', reasoning = ''fine''\<rparr>)]"

section \<open>Durable-store orchestrator (\<open>KafkaWorkspaceOrchestrator\<close>)\<close>

type_synonym json = string

datatype message_priority = high | medium | low

datatype kafka_message_type =
  edit_history | workspace_snapshot | consensus_decision | agent_coordination | conflict_resolution

datatype edit_operation = op_create | op_update | op_delete

record edit_data =
  ed_operation :: edit_operation
  ed_previousContent :: "string option"
  ed_newContent :: "string option"
  ed_patch :: "string option"
  ed_startLine :: "nat option"
  ed_endLine :: "nat option"
  ed_reason :: "string option"

record snapshot_data =
  sn_files :: "(string \<times> string) list"
  sn_metadata :: json
  sn_activeAgents :: "string list"
  sn_consensus :: json
  sn_reason :: string

datatype vote_choice = vote_agree | vote_disagree | vote_abstain

datatype final_decision = decision_approved | decision_rejected | decision_deferred

datatype consensus_method = majority | weighted | unanimous | delegate

record decision_data =
  dd_proposalId :: string
  dd_description :: string
  dd_votes :: "(string \<times> vote_choice \<times> string option) list"
  dd_finalDecision :: final_decision
  dd_consensusMethod :: consensus_method
  dd_implementation :: "string option"
  dd_deadline :: "nat option"

datatype coordination_type = handoff | collaboration | delegation | synchronization

record coordination_data =
  co_type :: coordination_type
  co_targetAgent :: "string option"
  co_task :: string
  co_dependencies :: "string list option"
  co_expectedDuration :: "nat option"
  co_priority :: message_priority

datatype conflict_type = edit_collision | consensus_deadlock | resource_contention | priority_conflict

datatype resolution_method = automatic | escalation | consensus_vote | manual_override

datatype conflict_outcome = resolved | escalated | deferred

record conflict_data =
  cf_conflictId :: string
  cf_type :: conflict_type
  cf_involvedAgents :: "string list"
  cf_conflictDetails :: json
  cf_resolutionMethod :: resolution_method
  cf_resolution :: json
  cf_outcome :: conflict_outcome

record session_data =
  sd_participants :: "string list"
  sd_goal :: string
  sd_timeLimit :: "nat option"
  sd_consensusThreshold :: "rat option"

datatype session_outcome = completed | timeout | aborted

record session_result =
  sr_outcome :: session_outcome
  sr_finalState :: json
  sr_decisions :: "string list"
  sr_participants :: "string list"
  sr_summary :: string

text \<open>The payload object of each method; the last component is the payload's own timestamp.\<close>

datatype kafka_payload =
    EditPayload edit_data string nat
  | SnapshotPayload snapshot_data nat
  | ConsensusPayload decision_data nat
  | CoordinationPayload coordination_type string "string list" "nat option" nat
  | ConflictPayload conflict_data nat
  | SessionStartPayload session_data nat
  | SessionEndPayload session_result nat

record kafka_metadata =
  md_agentId :: string
  md_workspaceId :: string
  md_sessionId :: string
  md_filePath :: "string option"
  md_sequenceNumber :: nat
  md_correlationId :: string
  md_requiresResponse :: "bool option"
  md_consensusRound :: "js_number option"

record WorkspaceKafkaMessage =
  km_id :: string
  km_timestamp :: nat
  km_type :: kafka_message_type
  km_source :: string
  km_target :: "string option"
  km_priority :: message_priority
  km_payload :: kafka_payload
  km_metadata :: kafka_metadata

text \<open>What \<open>producer.send\<close> is handed: the topic and the one message of the batch.\<close>

record producer_record =
  pr_topic :: string
  pr_key :: string
  pr_value :: WorkspaceKafkaMessage
  pr_timestamp :: string
  pr_messageType :: kafka_message_type
  pr_agentId :: string
  pr_correlationId :: string

text \<open>
  The orchestrator's mutable state: the sequence counter, the records handed to
  \<open>producer.send\<close> so far (each with whether the send succeeded) and the error events
  emitted.
\<close>

record kafka_orchestrator =
  sequenceNumber :: nat
  handed :: "(producer_record \<times> bool) list"
  kafka_errors :: "string list"

text \<open>What a call reads from its environment: the clock, the random id, the broker's answer.\<close>

record call_env =
  env_now :: nat
  env_rid :: string
  env_send_ok :: bool

definition kafka_new :: kafka_orchestrator where
  "kafka_new = \<lparr>sequenceNumber = 0, handed = [], kafka_errors = []\<rparr>"

text \<open>\<open>getNextSequence\<close>: \<open>return ++this.sequenceNumber\<close>.\<close>

definition getNextSequence :: "kafka_orchestrator \<Rightarrow> nat \<times> kafka_orchestrator" where
  "getNextSequence k = (sequenceNumber k + 1, k\<lparr>sequenceNumber := sequenceNumber k + 1\<rparr>)"

text \<open>
  \<open>proposalId.match(/round_(\d+)/)\<close>: the first capture group of the leftmost match, if
  any. At each position the match needs \<open>round_\<close> and at least one digit, and the group
  takes every digit that follows.
\<close>

fun round_match :: "string \<Rightarrow> string option" where
  "round_match [] = None"
| "round_match (c # cs) =
     (if starts_with ''round_'' (c # cs) \<and> takeWhile is_digit (drop 6 (c # cs)) \<noteq> []
      then Some (takeWhile is_digit (drop 6 (c # cs)))
      else round_match cs)"

definition extractConsensusRound :: "string \<Rightarrow> js_number" where
  "extractConsensusRound proposalId =
     (case round_match proposalId of Some ds \<Rightarrow> parseInt ds | None \<Rightarrow> JsInt 1)"

datatype kafka_failure = PublishFailed

text \<open>
  \<open>publishMessage\<close>: hands the record to the producer; when the send fails it emits an
  \<open>error\<close> event and rethrows.
\<close>

definition publishMessage ::
  "call_env \<Rightarrow> string \<Rightarrow> WorkspaceKafkaMessage \<Rightarrow> kafka_orchestrator \<Rightarrow>
   (kafka_failure + unit) \<times> kafka_orchestrator" where
  "publishMessage env topic message k =
     (let r = \<lparr>pr_topic = topic, pr_key = md_workspaceId (km_metadata message), pr_value = message,
                pr_timestamp = show_nat (km_timestamp message), pr_messageType = km_type message,
                pr_agentId = md_agentId (km_metadata message),
                pr_correlationId = md_correlationId (km_metadata message)\<rparr>
      in if env_send_ok env then (Inr (), k\<lparr>handed := handed k @ [(r, True)]\<rparr>)
         else (Inl PublishFailed,
               k\<lparr>handed := handed k @ [(r, False)],
                 kafka_errors := kafka_errors k @ [''Message publish failed'']\<rparr>))"

definition logFileEdit ::
  "call_env \<Rightarrow> string \<Rightarrow> string \<Rightarrow> string \<Rightarrow> string \<Rightarrow> edit_data \<Rightarrow> kafka_orchestrator \<Rightarrow>
   (kafka_failure + unit) \<times> kafka_orchestrator" where
  "logFileEdit env agentId workspaceId sessionId filePath editData k =
     (let (seq, k1) = getNextSequence k;
          message = \<lparr>km_id = ''edit_'' @ show_nat (env_now env) @ ''_'' @ env_rid env,
                     km_timestamp = env_now env, km_type = edit_history, km_source = agentId,
                     km_target = None, km_priority = high,
                     km_payload = EditPayload editData filePath (env_now env),
                     km_metadata = \<lparr>md_agentId = agentId, md_workspaceId = workspaceId,
                       md_sessionId = sessionId, md_filePath = Some filePath,
                       md_sequenceNumber = seq,
                       md_correlationId = ''edit_'' @ workspaceId @ ''_'' @ filePath @ ''_'' @ show_nat (env_now env),
                       md_requiresResponse = None, md_consensusRound = None\<rparr>\<rparr>
      in publishMessage env ''autogen-edit-history'' message k1)"

definition saveWorkspaceSnapshot ::
  "call_env \<Rightarrow> string \<Rightarrow> string \<Rightarrow> string \<Rightarrow> snapshot_data \<Rightarrow> kafka_orchestrator \<Rightarrow>
   (kafka_failure + unit) \<times> kafka_orchestrator" where
  "saveWorkspaceSnapshot env agentId workspaceId sessionId snapshot k =
     (let (seq, k1) = getNextSequence k;
          message = \<lparr>km_id = ''snapshot_'' @ show_nat (env_now env) @ ''_'' @ env_rid env,
                     km_timestamp = env_now env, km_type = workspace_snapshot, km_source = agentId,
                     km_target = None, km_priority = medium,
                     km_payload = SnapshotPayload snapshot (env_now env),
                     km_metadata = \<lparr>md_agentId = agentId, md_workspaceId = workspaceId,
                       md_sessionId = sessionId, md_filePath = None,
                       md_sequenceNumber = seq,
                       md_correlationId = ''snapshot_'' @ workspaceId @ ''_'' @ show_nat (env_now env),
                       md_requiresResponse = None, md_consensusRound = None\<rparr>\<rparr>
      in publishMessage env ''autogen-workspace-snapshots'' message k1)"

definition logConsensusDecision ::
  "call_env \<Rightarrow> string \<Rightarrow> string \<Rightarrow> string \<Rightarrow> decision_data \<Rightarrow> kafka_orchestrator \<Rightarrow>
   (kafka_failure + unit) \<times> kafka_orchestrator" where
  "logConsensusDecision env agentId workspaceId sessionId decision k =
     (let (seq, k1) = getNextSequence k;
          message = \<lparr>km_id = ''consensus_'' @ show_nat (env_now env) @ ''_'' @ env_rid env,
                     km_timestamp = env_now env, km_type = consensus_decision, km_source = agentId,
                     km_target = None, km_priority = high,
                     km_payload = ConsensusPayload decision (env_now env),
                     km_metadata = \<lparr>md_agentId = agentId, md_workspaceId = workspaceId,
                       md_sessionId = sessionId, md_filePath = None,
                       md_sequenceNumber = seq,
                       md_correlationId = ''consensus_'' @ dd_proposalId decision,
                       md_requiresResponse = None,
                       md_consensusRound = Some (extractConsensusRound (dd_proposalId decision))\<rparr>\<rparr>
      in publishMessage env ''autogen-consensus-decisions'' message k1)"

definition logAgentCoordination ::
  "call_env \<Rightarrow> string \<Rightarrow> string \<Rightarrow> string \<Rightarrow> coordination_data \<Rightarrow> kafka_orchestrator \<Rightarrow>
   (kafka_failure + unit) \<times> kafka_orchestrator" where
  "logAgentCoordination env agentId workspaceId sessionId coordination k =
     (let (seq, k1) = getNextSequence k;
          message = \<lparr>km_id = ''coord_'' @ show_nat (env_now env) @ ''_'' @ env_rid env,
                     km_timestamp = env_now env, km_type = agent_coordination, km_source = agentId,
                     km_target = co_targetAgent coordination, km_priority = co_priority coordination,
                     km_payload = CoordinationPayload (co_type coordination) (co_task coordination)
                       (case co_dependencies coordination of None \<Rightarrow> [] | Some ds \<Rightarrow> ds)
                       (co_expectedDuration coordination) (env_now env),
                     km_metadata = \<lparr>md_agentId = agentId, md_workspaceId = workspaceId,
                       md_sessionId = sessionId, md_filePath = None,
                       md_sequenceNumber = seq,
                       md_correlationId = ''coord_'' @ workspaceId @ ''_'' @ show_nat (env_now env),
                       md_requiresResponse = Some (co_type coordination = delegation),
                       md_consensusRound = None\<rparr>\<rparr>
      in publishMessage env ''autogen-agent-coordination'' message k1)"

definition logConflictResolution ::
  "call_env \<Rightarrow> string \<Rightarrow> string \<Rightarrow> string \<Rightarrow> conflict_data \<Rightarrow> kafka_orchestrator \<Rightarrow>
   (kafka_failure + unit) \<times> kafka_orchestrator" where
  "logConflictResolution env agentId workspaceId sessionId conflict k =
     (let (seq, k1) = getNextSequence k;
          message = \<lparr>km_id = ''conflict_'' @ show_nat (env_now env) @ ''_'' @ env_rid env,
                     km_timestamp = env_now env, km_type = conflict_resolution, km_source = agentId,
                     km_target = None, km_priority = high,
                     km_payload = ConflictPayload conflict (env_now env),
                     km_metadata = \<lparr>md_agentId = agentId, md_workspaceId = workspaceId,
                       md_sessionId = sessionId, md_filePath = None,
                       md_sequenceNumber = seq,
                       md_correlationId = cf_conflictId conflict,
                       md_requiresResponse = None, md_consensusRound = None\<rparr>\<rparr>
      in publishMessage env ''autogen-conflict-resolution'' message k1)"

definition startWorkspaceSession ::
  "call_env \<Rightarrow> string \<Rightarrow> string \<Rightarrow> string \<Rightarrow> session_data \<Rightarrow> kafka_orchestrator \<Rightarrow>
   (kafka_failure + unit) \<times> kafka_orchestrator" where
  "startWorkspaceSession env agentId workspaceId sessionId sessionData k =
     (let (seq, k1) = getNextSequence k;
          message = \<lparr>km_id = ''session_start_'' @ show_nat (env_now env) @ ''_'' @ env_rid env,
                     km_timestamp = env_now env, km_type = workspace_snapshot, km_source = agentId,
                     km_target = None, km_priority = high,
                     km_payload = SessionStartPayload sessionData (env_now env),
                     km_metadata = \<lparr>md_agentId = agentId, md_workspaceId = workspaceId,
                       md_sessionId = sessionId, md_filePath = None,
                       md_sequenceNumber = seq,
                       md_correlationId = ''session_'' @ sessionId,
                       md_requiresResponse = None, md_consensusRound = None\<rparr>\<rparr>
      in publishMessage env ''autogen-session-management'' message k1)"

definition endWorkspaceSession ::
  "call_env \<Rightarrow> string \<Rightarrow> string \<Rightarrow> string \<Rightarrow> session_result \<Rightarrow> kafka_orchestrator \<Rightarrow>
   (kafka_failure + unit) \<times> kafka_orchestrator" where
  "endWorkspaceSession env agentId workspaceId sessionId sessionResult k =
     (let (seq, k1) = getNextSequence k;
          message = \<lparr>km_id = ''session_end_'' @ show_nat (env_now env) @ ''_'' @ env_rid env,
                     km_timestamp = env_now env, km_type = workspace_snapshot, km_source = agentId,
                     km_target = None, km_priority = high,
                     km_payload = SessionEndPayload sessionResult (env_now env),
                     km_metadata = \<lparr>md_agentId = agentId, md_workspaceId = workspaceId,
                       md_sessionId = sessionId, md_filePath = None,
                       md_sequenceNumber = seq,
                       md_correlationId = ''session_'' @ sessionId,
                       md_requiresResponse = None, md_consensusRound = None\<rparr>\<rparr>
      in publishMessage env ''autogen-session-management'' message k1)"

text \<open>One call of a logging method on the orchestrator, with the environment it runs in.\<close>

datatype kafka_call =
    LogFileEdit call_env string string string string edit_data
  | SaveWorkspaceSnapshot call_env string string string snapshot_data
  | LogConsensusDecision call_env string string string decision_data
  | LogAgentCoordination call_env string string string coordination_data
  | LogConflictResolution call_env string string string conflict_data
  | StartWorkspaceSession call_env string string string session_data
  | EndWorkspaceSession call_env string string string session_result

fun kafka_perform :: "kafka_call \<Rightarrow> kafka_orchestrator \<Rightarrow> (kafka_failure + unit) \<times> kafka_orchestrator" where
  "kafka_perform (LogFileEdit env a w s f d) k = logFileEdit env a w s f d k"
| "kafka_perform (SaveWorkspaceSnapshot env a w s d) k = saveWorkspaceSnapshot env a w s d k"
| "kafka_perform (LogConsensusDecision env a w s d) k = logConsensusDecision env a w s d k"
| "kafka_perform (LogAgentCoordination env a w s d) k = logAgentCoordination env a w s d k"
| "kafka_perform (LogConflictResolution env a w s d) k = logConflictResolution env a w s d k"
| "kafka_perform (StartWorkspaceSession env a w s d) k = startWorkspaceSession env a w s d k"
| "kafka_perform (EndWorkspaceSession env a w s d) k = endWorkspaceSession env a w s d k"

text \<open>
  The orchestrator after a series of calls. A failed send rejects that call's promise and
  leaves later calls unaffected.
\<close>

fun kafka_calls :: "kafka_call list \<Rightarrow> kafka_orchestrator \<Rightarrow> kafka_orchestrator" where
  "kafka_calls [] k = k"
| "kafka_calls (c # cs) k = kafka_calls cs (snd (kafka_perform c k))"

text \<open>The sequence numbers of the records handed to the producer, oldest first.\<close>

definition sequence_numbers :: "kafka_orchestrator \<Rightarrow> nat list" where
  "sequence_numbers k = map (\<lambda>r. md_sequenceNumber (km_metadata (pr_value (fst r)))) (handed k)"

text \<open>Sample inputs used to exercise the logging methods.\<close>

definition env0 :: call_env where
  "env0 = \<lparr>env_now = 1726789012345, env_rid = ''k3j9x0q1z'', env_send_ok = True\<rparr>"

definition decision_on :: "string \<Rightarrow> decision_data" where
  "decision_on pid = \<lparr>dd_proposalId = pid, dd_description = ''adopt the plan'',
     dd_votes = [(''a1'', vote_agree, None), (''a2'', vote_abstain, Some ''unsure'')],
     dd_finalDecision = decision_approved, dd_consensusMethod = majority,
     dd_implementation = None, dd_deadline = None\<rparr>"

text \<open>The \<open>metadata.consensusRound\<close> of the message \<open>logConsensusDecision\<close> hands to the producer.\<close>

definition logged_round :: "string \<Rightarrow> js_number option" where
  "logged_round pid =
     md_consensusRound (km_metadata (pr_value (fst (last (handed (snd
       (logConsensusDecision env0 ''agent1'' ''ws1'' ''session1'' (decision_on pid) kafka_new)))))))"

definition two_calls :: "kafka_call list" where
  "two_calls =
     [LogFileEdit (env0\<lparr>env_send_ok := False\<rparr>) ''agent1'' ''ws1'' ''session1'' ''/src/a.ts''
        \<lparr>ed_operation = op_update, ed_previousContent = None, ed_newContent = Some ''x'',
         ed_patch = None, ed_startLine = None, ed_endLine = None, ed_reason = None\<rparr>,
      LogConsensusDecision env0 ''agent2'' ''ws1'' ''session1'' (decision_on ''p_round_2'')]"

section \<open>Fast-store orchestrator (\<open>RedisWorkspaceOrchestrator\<close>)\<close>

subsection \<open>String helpers of the lock code\<close>

text \<open>\<open>s.split(':')\<close>: never empty; the empty string splits into one empty part.\<close>

fun split_colon :: "string \<Rightarrow> string list" where
  "split_colon [] = [[]]"
| "split_colon (c # cs) =
     (if c = CHR '':'' then [] # split_colon cs
      else (case split_colon cs of p # ps \<Rightarrow> (c # p) # ps | [] \<Rightarrow> [[c]]))"

text \<open>\<open>parts.join(':')\<close>.\<close>

fun join_colon :: "string list \<Rightarrow> string" where
  "join_colon [] = []"
| "join_colon [p] = p"
| "join_colon (p # q # ps) = p @ '':'' @ join_colon (q # ps)"

text \<open>
  The characters \<open>.\<close> does not match in a regular expression without the \<open>s\<close> flag (line
  feed and carriage return; the two Unicode separators lie outside 8-bit characters).
\<close>

definition line_terminator :: "char \<Rightarrow> bool" where
  "line_terminator c = (c = CHR 0x0A \<or> c = CHR 0x0D)"

text \<open>
  \<open>lockId.replace(/:readers:.*$/, '')\<close>: the leftmost \<open>:readers:\<close> after which no line
  terminator follows is cut off together with the rest; without a match the string stays.
\<close>

fun strip_readers :: "string \<Rightarrow> string" where
  "strip_readers [] = []"
| "strip_readers (c # cs) =
     (if starts_with '':readers:'' (c # cs) \<and> filter line_terminator (drop 9 (c # cs)) = []
      then [] else c # strip_readers cs)"

subsection \<open>The store\<close>

datatype lock_type = lock_read | lock_write | lock_exclusive

text \<open>
  The object \<open>{agentId, lockType, timestamp, workspaceId, filePath}\<close> that is stored, as
  JSON, both as a lock record and as a queued request.
\<close>

record lock_info =
  li_agentId :: string
  li_lockType :: lock_type
  li_timestamp :: nat
  li_workspaceId :: string
  li_filePath :: string

text \<open>
  A key of the store holds a string (here always the JSON of a lock record), a set or a
  list, and may carry the time at which it expires. A set is the list of its members in
  insertion order.
\<close>

datatype redis_value = StringVal lock_info | SetVal "string list" | ListVal "lock_info list"

type_synonym redis_store = "string \<Rightarrow> (redis_value \<times> nat option) option"

datatype redis_error = WRONGTYPE | InvalidExpire

text \<open>What a key holds at time \<open>now\<close>: an expired key is absent.\<close>

definition lookup :: "redis_store \<Rightarrow> nat \<Rightarrow> string \<Rightarrow> redis_value option" where
  "lookup s now k =
     (case s k of
        None \<Rightarrow> None
      | Some (v, None) \<Rightarrow> Some v
      | Some (v, Some e) \<Rightarrow> if now < e then Some v else None)"

text \<open>The expiry a live key keeps when a command changes its value in place.\<close>

definition expiry_of :: "redis_store \<Rightarrow> string \<Rightarrow> nat option" where
  "expiry_of s k = (case s k of None \<Rightarrow> None | Some (v, e) \<Rightarrow> e)"

definition redis_get :: "redis_store \<Rightarrow> nat \<Rightarrow> string \<Rightarrow> redis_error + lock_info option" where
  "redis_get s now k =
     (case lookup s now k of
        None \<Rightarrow> Inr None
      | Some (StringVal v) \<Rightarrow> Inr (Some v)
      | Some (SetVal ms) \<Rightarrow> Inl WRONGTYPE
      | Some (ListVal vs) \<Rightarrow> Inl WRONGTYPE)"

text \<open>\<open>SET key value PX ttl\<close>.\<close>

definition redis_set_px ::
  "redis_store \<Rightarrow> nat \<Rightarrow> string \<Rightarrow> lock_info \<Rightarrow> nat \<Rightarrow> redis_error + redis_store" where
  "redis_set_px s now k v ttl =
     (if ttl = 0 then Inl InvalidExpire else Inr (s(k \<mapsto> (StringVal v, Some (now + ttl)))))"

text \<open>\<open>SET key value PX ttl NX\<close>: the reply is \<open>OK\<close> (\<open>True\<close>) or null.\<close>

definition redis_set_px_nx ::
  "redis_store \<Rightarrow> nat \<Rightarrow> string \<Rightarrow> lock_info \<Rightarrow> nat \<Rightarrow> redis_error + (bool \<times> redis_store)" where
  "redis_set_px_nx s now k v ttl =
     (if ttl = 0 then Inl InvalidExpire
      else (case lookup s now k of
              None \<Rightarrow> Inr (True, s(k \<mapsto> (StringVal v, Some (now + ttl))))
            | Some old \<Rightarrow> Inr (False, s)))"

text \<open>\<open>SADD key member\<close>: the number of members added.\<close>

definition redis_sadd :: "redis_store \<Rightarrow> nat \<Rightarrow> string \<Rightarrow> string \<Rightarrow> redis_error + (nat \<times> redis_store)" where
  "redis_sadd s now k m =
     (case lookup s now k of
        None \<Rightarrow> Inr (1, s(k \<mapsto> (SetVal [m], None)))
      | Some (SetVal ms) \<Rightarrow>
          if m \<in> set ms then Inr (0, s)
          else Inr (1, s(k \<mapsto> (SetVal (ms @ [m]), expiry_of s k)))
      | Some (StringVal v) \<Rightarrow> Inl WRONGTYPE
      | Some (ListVal vs) \<Rightarrow> Inl WRONGTYPE)"

text \<open>\<open>SREM key member\<close>: the number of members removed; an emptied set is deleted.\<close>

definition redis_srem :: "redis_store \<Rightarrow> nat \<Rightarrow> string \<Rightarrow> string \<Rightarrow> redis_error + (nat \<times> redis_store)" where
  "redis_srem s now k m =
     (case lookup s now k of
        None \<Rightarrow> Inr (0, s)
      | Some (SetVal ms) \<Rightarrow>
          if m \<in> set ms then
            (if removeAll m ms = [] then Inr (1, s(k := None))
             else Inr (1, s(k \<mapsto> (SetVal (removeAll m ms), expiry_of s k))))
          else Inr (0, s)
      | Some (StringVal v) \<Rightarrow> Inl WRONGTYPE
      | Some (ListVal vs) \<Rightarrow> Inl WRONGTYPE)"

definition redis_scard :: "redis_store \<Rightarrow> nat \<Rightarrow> string \<Rightarrow> redis_error + nat" where
  "redis_scard s now k =
     (case lookup s now k of
        None \<Rightarrow> Inr 0
      | Some (SetVal ms) \<Rightarrow> Inr (length (remdups ms))
      | Some (StringVal v) \<Rightarrow> Inl WRONGTYPE
      | Some (ListVal vs) \<Rightarrow> Inl WRONGTYPE)"

definition redis_del :: "redis_store \<Rightarrow> string \<Rightarrow> redis_store" where
  "redis_del s k = s(k := None)"

text \<open>\<open>LPUSH key value\<close>: the new element becomes the head of the list.\<close>

definition redis_lpush :: "redis_store \<Rightarrow> nat \<Rightarrow> string \<Rightarrow> lock_info \<Rightarrow> redis_error + redis_store" where
  "redis_lpush s now k v =
     (case lookup s now k of
        None \<Rightarrow> Inr (s(k \<mapsto> (ListVal [v], None)))
      | Some (ListVal vs) \<Rightarrow> Inr (s(k \<mapsto> (ListVal (v # vs), expiry_of s k)))
      | Some (StringVal w) \<Rightarrow> Inl WRONGTYPE
      | Some (SetVal ms) \<Rightarrow> Inl WRONGTYPE)"

text \<open>\<open>RPOP key\<close>: removes and returns the tail of the list; an emptied list is deleted.\<close>

definition redis_rpop :: "redis_store \<Rightarrow> nat \<Rightarrow> string \<Rightarrow> redis_error + (lock_info option \<times> redis_store)" where
  "redis_rpop s now k =
     (case lookup s now k of
        None \<Rightarrow> Inr (None, s)
      | Some (ListVal vs) \<Rightarrow>
          (if vs = [] then Inr (None, s(k := None))
           else if butlast vs = [] then Inr (Some (last vs), s(k := None))
           else Inr (Some (last vs), s(k \<mapsto> (ListVal (butlast vs), expiry_of s k))))
      | Some (StringVal w) \<Rightarrow> Inl WRONGTYPE
      | Some (SetVal ms) \<Rightarrow> Inl WRONGTYPE)"

subsection \<open>Messages and state of the orchestrator\<close>

datatype stream_message_type = file_lock | file_edit | agent_status | workspace_event | consensus_vote_message

record lock_event_payload =
  lp_eventType :: string
  lp_lockType :: lock_type

record stream_metadata =
  smd_agentId :: string
  smd_workspaceId :: string
  smd_filePath :: "string option"
  smd_lockType :: "lock_type option"
  smd_correlationId :: "string option"
  smd_retryCount :: "nat option"

record WorkspaceStreamMessage =
  sm_id :: string
  sm_timestamp :: nat
  sm_type :: stream_message_type
  sm_source :: string
  sm_target :: "string option"
  sm_priority :: message_priority
  sm_payload :: lock_event_payload
  sm_metadata :: stream_metadata

datatype redis_event = LockRetry lock_info | RedisError string

text \<open>
  The orchestrator with the store it talks to: the configured lock timeout, the keys of
  the store, the entries appended to streams (stream name and message, oldest first)
  and the events emitted. The store answers every command; a command on a key of the
  wrong kind is answered with an error, which the client throws.
\<close>

record redis_orchestrator =
  lockTimeoutMs :: nat
  store :: redis_store
  stream_log :: "(string \<times> WorkspaceStreamMessage) list"
  redis_events :: "redis_event list"

definition redis_new :: "nat \<Rightarrow> redis_orchestrator" where
  "redis_new ms = \<lparr>lockTimeoutMs = ms, store = Map.empty, stream_log = [], redis_events = []\<rparr>"

definition lock_key :: "string \<Rightarrow> string \<Rightarrow> string" where
  "lock_key workspaceId filePath = ''autogen:state:locks'' @ '':'' @ workspaceId @ '':'' @ filePath"

definition queue_key :: "string \<Rightarrow> string \<Rightarrow> string" where
  "queue_key workspaceId filePath = ''autogen:state:edit_queue'' @ '':'' @ workspaceId @ '':'' @ filePath"

text \<open>The message object built by \<open>publishLockEvent\<close>.\<close>

definition lock_event_message ::
  "nat \<Rightarrow> string \<Rightarrow> string \<Rightarrow> string \<Rightarrow> string \<Rightarrow> string \<Rightarrow> lock_type \<Rightarrow> WorkspaceStreamMessage" where
  "lock_event_message now rid eventType agentId workspaceId filePath lockType =
     \<lparr>sm_id = ''lock_'' @ show_nat now @ ''_'' @ rid, sm_timestamp = now,
      sm_type = file_lock, sm_source = agentId, sm_target = None, sm_priority = high,
      sm_payload = \<lparr>lp_eventType = eventType, lp_lockType = lockType\<rparr>,
      sm_metadata = \<lparr>smd_agentId = agentId, smd_workspaceId = workspaceId,
        smd_filePath = Some filePath, smd_lockType = Some lockType,
        smd_correlationId = None, smd_retryCount = None\<rparr>\<rparr>"

text \<open>\<open>publishToStream\<close>: the \<open>XADD\<close> appends the message to the stream.\<close>

definition publishToStream ::
  "string \<Rightarrow> WorkspaceStreamMessage \<Rightarrow> redis_orchestrator \<Rightarrow> redis_orchestrator" where
  "publishToStream streamName message r = r\<lparr>stream_log := stream_log r @ [(streamName, message)]\<rparr>"

definition publishLockEvent ::
  "nat \<Rightarrow> string \<Rightarrow> string \<Rightarrow> string \<Rightarrow> string \<Rightarrow> string \<Rightarrow> lock_type \<Rightarrow>
   redis_orchestrator \<Rightarrow> redis_orchestrator" where
  "publishLockEvent now rid eventType agentId workspaceId filePath lockType r =
     publishToStream ''autogen:locks''
       (lock_event_message now rid eventType agentId workspaceId filePath lockType) r"

text \<open>\<open>queueLockRequest\<close>; \<open>Inl\<close> is the error the \<open>LPUSH\<close> throws.\<close>

definition queueLockRequest ::
  "nat \<Rightarrow> string \<Rightarrow> string \<Rightarrow> string \<Rightarrow> lock_type \<Rightarrow> redis_orchestrator \<Rightarrow>
   redis_error + redis_orchestrator" where
  "queueLockRequest now agentId workspaceId filePath lockType r =
     (let request = \<lparr>li_agentId = agentId, li_lockType = lockType, li_timestamp = now,
                      li_workspaceId = workspaceId, li_filePath = filePath\<rparr>
      in case redis_lpush (store r) now (queue_key workspaceId filePath) request of
           Inl e \<Rightarrow> Inl e
         | Inr s \<Rightarrow> Inr (r\<lparr>store := s\<rparr>))"

text \<open>
  \<open>processLockQueue\<close>: the queue key is rebuilt from the parts of the lock key, the
  workspace from \<open>parts[2]\<close> and the file from \<open>parts.slice(3).join(':')\<close>.
\<close>

definition processLockQueue ::
  "nat \<Rightarrow> string \<Rightarrow> redis_orchestrator \<Rightarrow> redis_error + redis_orchestrator" where
  "processLockQueue now lockKey r =
     (let parts = split_colon lockKey
      in if length parts < 4 then Inr r
         else
           (let workspaceId = parts ! 2;
                filePath = join_colon (drop 3 parts)
            in case redis_rpop (store r) now (queue_key workspaceId filePath) of
                 Inl e \<Rightarrow> Inl e
               | Inr (None, s) \<Rightarrow> Inr (r\<lparr>store := s\<rparr>)
               | Inr (Some request, s) \<Rightarrow>
                   Inr (r\<lparr>store := s, redis_events := redis_events r @ [LockRetry request]\<rparr>)))"

text \<open>The \<open>catch\<close> blocks of the two lock methods: emit an \<open>error\<close> event.\<close>

definition lock_request_failed :: "redis_orchestrator \<Rightarrow> redis_orchestrator" where
  "lock_request_failed r = r\<lparr>redis_events := redis_events r @ [RedisError ''Lock request failed'']\<rparr>"

definition lock_release_failed :: "redis_orchestrator \<Rightarrow> redis_orchestrator" where
  "lock_release_failed r = r\<lparr>redis_events := redis_events r @ [RedisError ''Lock release failed'']\<rparr>"

text \<open>
  \<open>requestFileLock\<close>. The result is the lock id or \<open>None\<close> for null. Commands that
  were answered before an error keep their effect on the store.
\<close>

definition requestFileLock ::
  "nat \<Rightarrow> string \<Rightarrow> string \<Rightarrow> string \<Rightarrow> string \<Rightarrow> lock_type \<Rightarrow> redis_orchestrator \<Rightarrow>
   string option \<times> redis_orchestrator" where
  "requestFileLock now rid agentId workspaceId filePath lockType r =
     (let lockKey = lock_key workspaceId filePath;
          lockValue = \<lparr>li_agentId = agentId, li_lockType = lockType, li_timestamp = now,
                        li_workspaceId = workspaceId, li_filePath = filePath\<rparr>
      in case redis_get (store r) now lockKey of
           Inl e \<Rightarrow> (None, lock_request_failed r)
         | Inr (Some lock) \<Rightarrow>
             (let conflict = (\<lambda>r1. case queueLockRequest now agentId workspaceId filePath lockType r1 of
                                      Inl e \<Rightarrow> (None, lock_request_failed r1)
                                    | Inr r2 \<Rightarrow> (None, r2))
              in if lockType = lock_read \<and> li_lockType lock = lock_read then
                   (case redis_sadd (store r) now (lockKey @ '':readers'') agentId of
                      Inl e \<Rightarrow> (None, lock_request_failed r)
                    | Inr (readLocks, s) \<Rightarrow>
                        if readLocks \<noteq> 0 then
                          (Some (lockKey @ '':readers:'' @ agentId),
                           publishLockEvent now rid ''lock_acquired'' agentId workspaceId filePath lockType
                             (r\<lparr>store := s\<rparr>))
                        else conflict (r\<lparr>store := s\<rparr>))
                 else conflict r)
         | Inr None \<Rightarrow>
             if lockType = lock_read then
               (case redis_sadd (store r) now (lockKey @ '':readers'') agentId of
                  Inl e \<Rightarrow> (None, lock_request_failed r)
                | Inr (added, s) \<Rightarrow>
                    (case redis_set_px s now lockKey lockValue (lockTimeoutMs r) of
                       Inl e \<Rightarrow> (None, lock_request_failed (r\<lparr>store := s\<rparr>))
                     | Inr s' \<Rightarrow>
                         (Some (lockKey @ '':readers:'' @ agentId),
                          publishLockEvent now rid ''lock_acquired'' agentId workspaceId filePath lockType
                            (r\<lparr>store := s'\<rparr>))))
             else
               (case redis_set_px_nx (store r) now lockKey lockValue (lockTimeoutMs r) of
                  Inl e \<Rightarrow> (None, lock_request_failed r)
                | Inr (acquired, s) \<Rightarrow>
                    if acquired then
                      (Some lockKey,
                       publishLockEvent now rid ''lock_acquired'' agentId workspaceId filePath lockType
                         (r\<lparr>store := s\<rparr>))
                    else (None, r\<lparr>store := s\<rparr>)))"

text \<open>\<open>releaseFileLock\<close>.\<close>

definition releaseFileLock ::
  "nat \<Rightarrow> string \<Rightarrow> string \<Rightarrow> string \<Rightarrow> redis_orchestrator \<Rightarrow> bool \<times> redis_orchestrator" where
  "releaseFileLock now rid lockId agentId r =
     (if str_includes '':readers:'' lockId then
        (let baseKey = strip_readers lockId
         in case redis_srem (store r) now (baseKey @ '':readers'') agentId of
              Inl e \<Rightarrow> (False, lock_release_failed r)
            | Inr (removed, s1) \<Rightarrow>
                (case redis_scard s1 now (baseKey @ '':readers'') of
                   Inl e \<Rightarrow> (False, lock_release_failed (r\<lparr>store := s1\<rparr>))
                 | Inr remainingReaders \<Rightarrow>
                     (let s2 = (if remainingReaders = 0
                                then redis_del (redis_del s1 (baseKey @ '':readers'')) baseKey
                                else s1)
                      in if removed \<noteq> 0 then
                           (case processLockQueue now baseKey
                                   (publishLockEvent now rid ''lock_released'' agentId [] [] lock_read
                                      (r\<lparr>store := s2\<rparr>)) of
                              Inl e \<Rightarrow>
                                (False, lock_release_failed
                                   (publishLockEvent now rid ''lock_released'' agentId [] [] lock_read
                                      (r\<lparr>store := s2\<rparr>)))
                            | Inr r' \<Rightarrow> (0 < removed, r'))
                         else (0 < removed, r\<lparr>store := s2\<rparr>))))
      else
        (case redis_get (store r) now lockId of
           Inl e \<Rightarrow> (False, lock_release_failed r)
         | Inr None \<Rightarrow> (False, r)
         | Inr (Some lock) \<Rightarrow>
             if li_agentId lock = agentId then
               (let r1 = publishLockEvent now rid ''lock_released'' agentId
                           (li_workspaceId lock) (li_filePath lock) (li_lockType lock)
                           (r\<lparr>store := redis_del (store r) lockId\<rparr>)
                in case processLockQueue now lockId r1 of
                     Inl e \<Rightarrow> (False, lock_release_failed r1)
                   | Inr r' \<Rightarrow> (True, r'))
             else (False, r)))"

text \<open>
  Three situations on a fresh store with a lock timeout of 30 seconds: agent A holds a
  read lock on \<open>/f\<close>; agent A has taken and released a read lock on \<open>/f\<close> and agent B
  then holds the write lock; agent A holds the write lock and agent B's write request
  is waiting.
\<close>

definition read_held_by_A :: redis_orchestrator where
  "read_held_by_A =
     snd (requestFileLock 1000 ''r1'' ''agentA'' ''ws1'' ''/f'' lock_read (redis_new 30000))"

definition write_held_by_B :: redis_orchestrator where
  "write_held_by_B =
     snd (requestFileLock 1002 ''r3'' ''agentB'' ''ws1'' ''/f'' lock_write
       (snd (releaseFileLock 1001 ''r2'' ''autogen:state:locks:ws1:/f:readers:agentA'' ''agentA''
          read_held_by_A)))"

definition write_held_B_waiting :: redis_orchestrator where
  "write_held_B_waiting =
     snd (requestFileLock 1001 ''r2'' ''agentB'' ''ws1'' ''/f'' lock_write
       (snd (requestFileLock 1000 ''r1'' ''agentA'' ''ws1'' ''/f'' lock_write (redis_new 30000))))"

section \<open>Coordination bridge (\<open>WorkspaceInfrastructureBridge\<close>)\<close>

subsection \<open>Health status and reconnect supervisor\<close>

datatype service = redis_service | kafka_service

record backend_health =
  connected :: bool
  lastHealthCheck :: nat
  errorCount :: nat
  lastError :: "string option"

datatype overall_health = healthy | degraded | offline

record InfrastructureHealthStatus =
  hs_redis :: backend_health
  hs_kafka :: backend_health
  hs_overall :: overall_health

datatype bridge_event =
    redis_connected
  | redis_disconnected
  | redis_error string
  | kafka_connected
  | kafka_disconnected
  | kafka_error string
  | health_changed InfrastructureHealthStatus
  | reconnect_failed service
  | reconnect_attempt_failed service nat
  | initialized InfrastructureHealthStatus

text \<open>
  The bridge's supervisor state. \<open>timers\<close> are the pending \<open>setTimeout\<close> callbacks of
  \<open>attemptReconnect\<close>, each with the service and the value of \<open>attempts\<close> it captured;
  \<open>connecting\<close> are the callbacks that have fired and wait for their \<open>connect()\<close> to
  settle; \<open>setTimeout_log\<close> lists every \<open>setTimeout\<close> call made so far with its delay.
\<close>

record bridge =
  cfg_reconnectAttempts :: nat
  cfg_reconnectDelayMs :: nat
  healthStatus :: InfrastructureHealthStatus
  reconnectAttempts :: "service \<rightharpoonup> nat"
  reconnectInProgress :: "service set"
  timers :: "(service \<times> nat) list"
  connecting :: "(service \<times> nat) list"
  setTimeout_log :: "(service \<times> nat) list"
  emitted :: "bridge_event list"

text \<open>The state the constructor leaves.\<close>

definition bridge_new :: "nat \<Rightarrow> nat \<Rightarrow> bridge" where
  "bridge_new attempts delayMs =
     \<lparr>cfg_reconnectAttempts = attempts, cfg_reconnectDelayMs = delayMs,
      healthStatus =
        \<lparr>hs_redis = \<lparr>connected = False, lastHealthCheck = 0, errorCount = 0, lastError = None\<rparr>,
         hs_kafka = \<lparr>connected = False, lastHealthCheck = 0, errorCount = 0, lastError = None\<rparr>,
         hs_overall = offline\<rparr>,
      reconnectAttempts = Map.empty, reconnectInProgress = {}, timers = [], connecting = [],
      setTimeout_log = [], emitted = []\<rparr>"

definition updateOverallHealth :: "bridge \<Rightarrow> bridge" where
  "updateOverallHealth b =
     (let redisHealth = connected (hs_redis (healthStatus b));
          kafkaHealth = connected (hs_kafka (healthStatus b));
          h = (healthStatus b)\<lparr>hs_overall :=
                 (if redisHealth \<and> kafkaHealth then healthy
                  else if redisHealth \<or> kafkaHealth then degraded
                  else offline)\<rparr>
      in b\<lparr>healthStatus := h, emitted := emitted b @ [health_changed h]\<rparr>)"

text \<open>
  \<open>attemptReconnect\<close> up to its \<open>setTimeout\<close>; the callback is \<open>timer_fires\<close> followed by
  \<open>connect_settles\<close>.
\<close>

definition attemptReconnect :: "service \<Rightarrow> bridge \<Rightarrow> bridge" where
  "attemptReconnect s b =
     (if s \<in> reconnectInProgress b then b
      else
        (let attempts = (case reconnectAttempts b s of None \<Rightarrow> 0 | Some n \<Rightarrow> n)
         in if cfg_reconnectAttempts b \<le> attempts then b\<lparr>emitted := emitted b @ [reconnect_failed s]\<rparr>
            else b\<lparr>reconnectAttempts := (reconnectAttempts b)(s \<mapsto> attempts + 1),
                   reconnectInProgress := insert s (reconnectInProgress b),
                   timers := timers b @ [(s, attempts)],
                   setTimeout_log := setTimeout_log b @ [(s, cfg_reconnectDelayMs b * (attempts + 1))]\<rparr>))"

text \<open>The handlers of the orchestrators' \<open>connected\<close> and \<open>disconnected\<close> events.\<close>

fun on_connected :: "service \<Rightarrow> bridge \<Rightarrow> bridge" where
  "on_connected redis_service b =
     (let h = healthStatus b;
          b1 = updateOverallHealth
                 (b\<lparr>healthStatus := h\<lparr>hs_redis := (hs_redis h)\<lparr>connected := True, errorCount := 0\<rparr>\<rparr>,
                    reconnectAttempts := (reconnectAttempts b)(redis_service \<mapsto> 0)\<rparr>)
      in b1\<lparr>emitted := emitted b1 @ [redis_connected]\<rparr>)"
| "on_connected kafka_service b =
     (let h = healthStatus b;
          b1 = updateOverallHealth
                 (b\<lparr>healthStatus := h\<lparr>hs_kafka := (hs_kafka h)\<lparr>connected := True, errorCount := 0\<rparr>\<rparr>,
                    reconnectAttempts := (reconnectAttempts b)(kafka_service \<mapsto> 0)\<rparr>)
      in b1\<lparr>emitted := emitted b1 @ [kafka_connected]\<rparr>)"

fun on_disconnected :: "service \<Rightarrow> bridge \<Rightarrow> bridge" where
  "on_disconnected redis_service b =
     (let h = healthStatus b;
          b1 = updateOverallHealth (b\<lparr>healthStatus := h\<lparr>hs_redis := (hs_redis h)\<lparr>connected := False\<rparr>\<rparr>\<rparr>)
      in b1\<lparr>emitted := emitted b1 @ [redis_disconnected]\<rparr>)"
| "on_disconnected kafka_service b =
     (let h = healthStatus b;
          b1 = updateOverallHealth (b\<lparr>healthStatus := h\<lparr>hs_kafka := (hs_kafka h)\<lparr>connected := False\<rparr>\<rparr>\<rparr>)
      in b1\<lparr>emitted := emitted b1 @ [kafka_disconnected]\<rparr>)"

text \<open>\<open>handleRedisError\<close> and \<open>handleKafkaError\<close>; the string is \<open>error.message\<close>.\<close>

definition handleRedisError :: "string \<Rightarrow> bridge \<Rightarrow> bridge" where
  "handleRedisError msg b =
     (let h = healthStatus b;
          b1 = updateOverallHealth
                 (b\<lparr>healthStatus := h\<lparr>hs_redis := (hs_redis h)\<lparr>connected := False,
                      errorCount := errorCount (hs_redis h) + 1, lastError := Some msg\<rparr>\<rparr>\<rparr>)
      in attemptReconnect redis_service (b1\<lparr>emitted := emitted b1 @ [redis_error msg]\<rparr>))"

definition handleKafkaError :: "string \<Rightarrow> bridge \<Rightarrow> bridge" where
  "handleKafkaError msg b =
     (let h = healthStatus b;
          b1 = updateOverallHealth
                 (b\<lparr>healthStatus := h\<lparr>hs_kafka := (hs_kafka h)\<lparr>connected := False,
                      errorCount := errorCount (hs_kafka h) + 1, lastError := Some msg\<rparr>\<rparr>\<rparr>)
      in attemptReconnect kafka_service (b1\<lparr>emitted := emitted b1 @ [kafka_error msg]\<rparr>))"

fun handle_error :: "service \<Rightarrow> string \<Rightarrow> bridge \<Rightarrow> bridge" where
  "handle_error redis_service msg b = handleRedisError msg b"
| "handle_error kafka_service msg b = handleKafkaError msg b"

definition performHealthCheck :: "nat \<Rightarrow> bridge \<Rightarrow> bridge" where
  "performHealthCheck now b =
     (let h = healthStatus b
      in b\<lparr>healthStatus := h\<lparr>hs_redis := (hs_redis h)\<lparr>lastHealthCheck := now\<rparr>,
                               hs_kafka := (hs_kafka h)\<lparr>lastHealthCheck := now\<rparr>\<rparr>\<rparr>)"

text \<open>The \<open>i\<close>-th pending timer fires: its callback calls \<open>connect()\<close> and awaits it.\<close>

definition timer_fires :: "nat \<Rightarrow> bridge \<Rightarrow> bridge" where
  "timer_fires i b =
     (if i < length (timers b)
      then b\<lparr>timers := take i (timers b) @ drop (i + 1) (timers b),
             connecting := connecting b @ [timers b ! i]\<rparr>
      else b)"

text \<open>
  The \<open>connect()\<close> of the \<open>j\<close>-th waiting callback resolves (\<open>ok\<close>) or rejects: the rest of
  the callback, its \<open>catch\<close> and its \<open>finally\<close>.
\<close>

definition connect_settles :: "nat \<Rightarrow> bool \<Rightarrow> bridge \<Rightarrow> bridge" where
  "connect_settles j ok b =
     (if j < length (connecting b) then
        (let s = fst (connecting b ! j);
             attempts = snd (connecting b ! j);
             b1 = b\<lparr>connecting := take j (connecting b) @ drop (j + 1) (connecting b)\<rparr>;
             b2 = (if ok then b1
                   else
                     (let b' = b1\<lparr>emitted := emitted b1 @ [reconnect_attempt_failed s (attempts + 1)]\<rparr>
                      in if attempts + 1 < cfg_reconnectAttempts b'
                         then attemptReconnect s (b'\<lparr>reconnectInProgress := reconnectInProgress b' - {s}\<rparr>)
                         else b'))
         in b2\<lparr>reconnectInProgress := reconnectInProgress b2 - {s}\<rparr>)
      else b)"

text \<open>
  \<open>initialize\<close>, cut where it awaits. \<open>initialize_redis_settled\<close> is the stretch that
  runs once the first \<open>connect()\<close> has settled (\<open>None\<close>: resolved; \<open>Some msg\<close>: rejected
  with that message): it sets the flag and emits \<open>redis_connected\<close>, or handles the
  error; the method then awaits the second \<open>connect()\<close>, and handlers of other events may
  run meanwhile. \<open>initialize_kafka_settled\<close> is the same stretch for the second
  \<open>connect()\<close>, up to the emit of \<open>kafka_connected\<close>, whose listeners run in the state
  it returns. \<open>initialize_finish\<close> is the rest, which follows without a pause: the
  rollup and the \<open>initialized\<close> event.
\<close>

definition initialize_redis_settled :: "string option \<Rightarrow> bridge \<Rightarrow> bridge" where
  "initialize_redis_settled outcome b =
     (case outcome of
        None \<Rightarrow>
          b\<lparr>healthStatus := (healthStatus b)\<lparr>hs_redis := (hs_redis (healthStatus b))\<lparr>connected := True\<rparr>\<rparr>,
            emitted := emitted b @ [redis_connected]\<rparr>
      | Some msg \<Rightarrow> handleRedisError msg b)"

definition initialize_kafka_settled :: "string option \<Rightarrow> bridge \<Rightarrow> bridge" where
  "initialize_kafka_settled outcome b =
     (case outcome of
        None \<Rightarrow>
          b\<lparr>healthStatus := (healthStatus b)\<lparr>hs_kafka := (hs_kafka (healthStatus b))\<lparr>connected := True\<rparr>\<rparr>,
            emitted := emitted b @ [kafka_connected]\<rparr>
      | Some msg \<Rightarrow> handleKafkaError msg b)"

definition initialize_finish :: "bridge \<Rightarrow> bridge" where
  "initialize_finish b =
     (let b1 = updateOverallHealth b
      in b1\<lparr>emitted := emitted b1 @ [initialized (healthStatus b1)]\<rparr>)"

text \<open>
  What can happen to the bridge, one step at a time and in any order. The two steps of
  \<open>initialize\<close> are the settling of its first \<open>connect()\<close> and the settling of its
  second, which runs on to the end of the method.
\<close>

datatype bridge_input =
    Connected service
  | Disconnected service
  | Failed service string
  | HealthCheck nat
  | TimerFires nat
  | ConnectSettles nat bool
  | InitializeRedisSettles "string option"
  | InitializeKafkaSettles "string option"

fun bridge_step :: "bridge_input \<Rightarrow> bridge \<Rightarrow> bridge" where
  "bridge_step (Connected s) b = on_connected s b"
| "bridge_step (Disconnected s) b = on_disconnected s b"
| "bridge_step (Failed s msg) b = handle_error s msg b"
| "bridge_step (HealthCheck now) b = performHealthCheck now b"
| "bridge_step (TimerFires i) b = timer_fires i b"
| "bridge_step (ConnectSettles j ok) b = connect_settles j ok b"
| "bridge_step (InitializeRedisSettles outcome) b = initialize_redis_settled outcome b"
| "bridge_step (InitializeKafkaSettles outcome) b = initialize_finish (initialize_kafka_settled outcome b)"

fun bridge_run :: "bridge_input list \<Rightarrow> bridge \<Rightarrow> bridge" where
  "bridge_run [] b = b"
| "bridge_run (i # is) b = bridge_run is (bridge_step i b)"

text \<open>\<open>this.reconnectAttempts.get(service) || 0\<close>.\<close>

definition attempts_of :: "bridge \<Rightarrow> service \<Rightarrow> nat" where
  "attempts_of b s = (case reconnectAttempts b s of None \<Rightarrow> 0 | Some n \<Rightarrow> n)"

text \<open>The delays of the \<open>setTimeout\<close> calls made for a service, oldest first.\<close>

definition delays_for :: "service \<Rightarrow> bridge \<Rightarrow> nat list" where
  "delays_for s b = map snd (filter (\<lambda>e. fst e = s) (setTimeout_log b))"

subsection \<open>Fallback lock manager\<close>

text \<open>
  A value of \<open>fallbackStorage\<close>: the lock object, whose \<open>readers\<close> array exists only
  after a second reader has joined.
\<close>

record fallback_lock =
  fl_agentId :: string
  fl_lockType :: lock_type
  fl_timestamp :: nat
  fl_workspaceId :: string
  fl_filePath :: string
  fl_readers :: "string list option"

type_synonym fallback_storage = "string \<rightharpoonup> fallback_lock"

definition fallbackFileLock ::
  "nat \<Rightarrow> string \<Rightarrow> string \<Rightarrow> string \<Rightarrow> lock_type \<Rightarrow> fallback_storage \<Rightarrow>
   string option \<times> fallback_storage" where
  "fallbackFileLock now agentId workspaceId filePath lockType fs =
     (let lockKey = workspaceId @ '':'' @ filePath
      in case fs lockKey of
           Some existingLock \<Rightarrow>
             if lockType = lock_read \<and> fl_lockType existingLock = lock_read then
               (let readers = (case fl_readers existingLock of None \<Rightarrow> [] | Some rs \<Rightarrow> rs) @ [agentId]
                in (Some (lockKey @ '':readers:'' @ agentId),
                    fs(lockKey \<mapsto> existingLock\<lparr>fl_readers := Some readers\<rparr>)))
             else (None, fs)
         | None \<Rightarrow>
             (Some lockKey,
              fs(lockKey \<mapsto> \<lparr>fl_agentId = agentId, fl_lockType = lockType, fl_timestamp = now,
                               fl_workspaceId = workspaceId, fl_filePath = filePath,
                               fl_readers = None\<rparr>)))"

definition fallbackLockRelease ::
  "string \<Rightarrow> string \<Rightarrow> fallback_storage \<Rightarrow> bool \<times> fallback_storage" where
  "fallbackLockRelease lockId agentId fs =
     (if str_includes '':readers:'' lockId then
        (let baseKey = strip_readers lockId
         in case fs baseKey of
              None \<Rightarrow> (False, fs)
            | Some lock \<Rightarrow>
                (case fl_readers lock of
                   None \<Rightarrow> (False, fs)
                 | Some rs \<Rightarrow>
                     (let readers = filter (\<lambda>i. i \<noteq> agentId) rs
                      in if length readers = 0 then (True, fs(baseKey := None))
                         else (True, fs(baseKey \<mapsto> lock\<lparr>fl_readers := Some readers\<rparr>)))))
      else
        (case fs lockId of
           None \<Rightarrow> (False, fs)
         | Some lock \<Rightarrow>
             if fl_agentId lock = agentId then (True, fs(lockId := None)) else (False, fs)))"

text \<open>
  The fallback storage after agents A and B have each taken a read lock on \<open>/f\<close> of
  \<open>ws1\<close>: agent A is the record's \<open>agentId\<close>, agent B the only entry of \<open>readers\<close>.
\<close>

definition fallback_two_readers :: fallback_storage where
  "fallback_two_readers =
     snd (fallbackFileLock 1001 ''agentB'' ''ws1'' ''/f'' lock_read
       (snd (fallbackFileLock 1000 ''agentA'' ''ws1'' ''/f'' lock_read Map.empty)))"

section \<open>Notions used in the statements about the bridge\<close>








text \<open>
  One step seen from a service: either its attempt counter and its \<open>setTimeout\<close> calls
  are untouched, or the counter was below the cap, went up by one, and one timer was
  set with the delay times the new counter.
\<close>

definition sched_step :: "service \<Rightarrow> bridge \<Rightarrow> bridge \<Rightarrow> bool" where
  "sched_step s b b' =
     (cfg_reconnectAttempts b' = cfg_reconnectAttempts b
      \<and> cfg_reconnectDelayMs b' = cfg_reconnectDelayMs b
      \<and> (if delays_for s b' = delays_for s b then attempts_of b' s = attempts_of b s
          else attempts_of b s < cfg_reconnectAttempts b
               \<and> attempts_of b' s = attempts_of b s + 1
               \<and> delays_for s b' = delays_for s b @ [cfg_reconnectDelayMs b * (attempts_of b s + 1)]))"

text \<open>
  Two runs of the supervisor. In the first the cap is one attempt: a Kafka error, the
  timer firing, the \<open>error\<close> event of the failing \<open>connect()\<close> and its rejection. In the
  second the cap is three attempts and each of the three reconnects to Redis is
  rejected.
\<close>

definition single_attempt_exhausted :: bridge where
  "single_attempt_exhausted =
     bridge_run [Failed kafka_service ''Message publish failed'', TimerFires 0,
                 Failed kafka_service ''Kafka connection failed'', ConnectSettles 0 False]
       (bridge_new 1 100)"

definition three_failures :: "bridge_input list" where
  "three_failures =
     [Failed redis_service ''connection lost'',
      TimerFires 0, ConnectSettles 0 False,
      TimerFires 0, ConnectSettles 0 False,
      TimerFires 0, ConnectSettles 0 False]"

definition three_attempts_exhausted :: bridge where
  "three_attempts_exhausted = bridge_run three_failures (bridge_new 3 100)"

chapter \<open>Properties\<close>

section \<open>Consensus tally\<close>

lemma voteCount_foldl:
  "count_or_zero
     (foldl (\<lambda>acc e. acc(vote (snd e) \<mapsto> (case acc (vote (snd e)) of None \<Rightarrow> 0 | Some c \<Rightarrow> c) + 1))
        acc0 votes) v
   = count_or_zero acc0 v + votes_for v votes"
  by (induction votes arbitrary: acc0) (auto simp: count_or_zero_def votes_for_def)

lemma count_voteCount: "count_or_zero (voteCount votes) v = votes_for v votes"
  unfolding voteCount_def by (subst voteCount_foldl) (simp add: count_or_zero_def)

lemma votes_for_le: "votes_for v votes \<le> length votes"
  by (simp add: votes_for_def)

lemma votes_for_disjoint:
  "v \<noteq> w \<Longrightarrow> votes_for v votes + votes_for w votes \<le> length votes"
  by (induction votes) (auto simp: votes_for_def)

lemma votes_for_same: "same_ballots votes votes' \<Longrightarrow> votes_for v votes = votes_for v votes'"
proof -
  assume "same_ballots votes votes'"
  then have m: "map (\<lambda>e. vote (snd e)) votes = map (\<lambda>e. vote (snd e)) votes'"
    by (simp add: same_ballots_def)
  have h: "votes_for v xs = length (filter (\<lambda>x. x = v) (map (\<lambda>e. vote (snd e)) xs))" for xs
    by (simp add: votes_for_def filter_map comp_def)
  show ?thesis by (simp only: h m)
qed

lemma tally_result:
  "cr_result (tally p now votes) =
     (if (of_nat (votes_for ''agree'' votes) :: rat) > of_nat (length votes) / 2 then approved
      else if (of_nat (votes_for ''disagree'' votes) :: rat) > of_nat (length votes) / 2 then rejected
      else deadlock)"
  by (simp add: tally_def Let_def count_voteCount)

lemma tally_confidence:
  "cr_confidence (tally p now votes) =
     (if (of_nat (votes_for ''agree'' votes) :: rat) > of_nat (length votes) / 2
      then of_nat (votes_for ''agree'' votes) / of_nat (length votes)
      else if (of_nat (votes_for ''disagree'' votes) :: rat) > of_nat (length votes) / 2
      then of_nat (votes_for ''disagree'' votes) / of_nat (length votes)
      else 1 / 2)"
  by (simp add: tally_def Let_def count_voteCount)

lemma majority_exclusive:
  assumes "(of_nat (votes_for ''agree'' votes) :: rat) > of_nat (length votes) / 2"
  shows "\<not> (of_nat (votes_for ''disagree'' votes) :: rat) > of_nat (length votes) / 2"
proof
  assume d: "(of_nat (votes_for ''disagree'' votes) :: rat) > of_nat (length votes) / 2"
  from assms d have "(of_nat (length votes) :: rat) < of_nat (votes_for ''agree'' votes) + of_nat (votes_for ''disagree'' votes)"
    by simp
  then have "(of_nat (length votes) :: rat) < of_nat (votes_for ''agree'' votes + votes_for ''disagree'' votes)"
    by simp
  then have "length votes < votes_for ''agree'' votes + votes_for ''disagree'' votes"
    using of_nat_less_iff by blast
  moreover have "votes_for ''agree'' votes + votes_for ''disagree'' votes \<le> length votes"
    by (rule votes_for_disjoint) simp
  ultimately show False by simp
qed

lemma ratio_bounds:
  assumes "(of_nat a :: rat) > of_nat n / 2" and "a \<le> n"
  shows "1 / 2 \<le> (of_nat a :: rat) / of_nat n \<and> (of_nat a :: rat) / of_nat n \<le> 1"
proof -
  from assms have n: "0 < n" by (cases n) auto
  then have pos: "(0::rat) < of_nat n" by simp
  have "(of_nat a :: rat) \<le> of_nat n" using assms(2) by simp
  then have up: "(of_nat a :: rat) / of_nat n \<le> 1" using pos by (simp add: divide_le_eq)
  have "(of_nat n :: rat) / 2 \<le> of_nat a" using assms(1) by simp
  then have "1 / 2 \<le> (of_nat a :: rat) / of_nat n" using pos by (simp add: le_divide_eq field_simps)
  with up show ?thesis by simp
qed

lemma tally_confidence_bounds:
  "1 / 2 \<le> cr_confidence (tally p now votes) \<and> cr_confidence (tally p now votes) \<le> 1"
proof (cases "(of_nat (votes_for ''agree'' votes) :: rat) > of_nat (length votes) / 2")
  case True
  from ratio_bounds[OF True votes_for_le] True show ?thesis
    by (simp only: tally_confidence if_True)
next
  case False
  note nag = False
  show ?thesis
  proof (cases "(of_nat (votes_for ''disagree'' votes) :: rat) > of_nat (length votes) / 2")
    case True
    from ratio_bounds[OF True votes_for_le] True nag show ?thesis
      by (simp only: tally_confidence if_True if_False)
  next
    case False
    with nag show ?thesis by (simp add: tally_confidence)
  qed
qed

text \<open>
  C4. For a vote object with \<open>N\<close> entries, both tally helpers return \<open>approved\<close> exactly
  when the number of \<open>agree\<close> votes exceeds \<open>N / 2\<close> (confidence \<open>agree / N\<close>),
  \<open>rejected\<close> exactly when the number of \<open>disagree\<close> votes exceeds \<open>N / 2\<close>
  (confidence \<open>disagree / N\<close>) and \<open>deadlock\<close> otherwise (confidence \<open>1 / 2\<close>);
  the confidence lies between \<open>1 / 2\<close> and \<open>1\<close>, and outcome and confidence do not
  depend on the reasoning strings.
\<close>

theorem tally_law:
  assumes "r = calculateConsensus now votes \<or> r = ollama_calculateConsensus now votes"
  shows "((cr_result r = approved) = ((of_nat (votes_for ''agree'' votes) :: rat) > of_nat (length votes) / 2))
    \<and> ((cr_result r = rejected) = ((of_nat (votes_for ''disagree'' votes) :: rat) > of_nat (length votes) / 2))
    \<and> ((cr_result r = deadlock) =
         (\<not> (of_nat (votes_for ''agree'' votes) :: rat) > of_nat (length votes) / 2
          \<and> \<not> (of_nat (votes_for ''disagree'' votes) :: rat) > of_nat (length votes) / 2))
    \<and> (cr_result r = approved \<longrightarrow>
         cr_confidence r = of_nat (votes_for ''agree'' votes) / of_nat (length votes))
    \<and> (cr_result r = rejected \<longrightarrow>
         cr_confidence r = of_nat (votes_for ''disagree'' votes) / of_nat (length votes))
    \<and> (cr_result r = deadlock \<longrightarrow> cr_confidence r = 1 / 2)
    \<and> 1 / 2 \<le> cr_confidence r \<and> cr_confidence r \<le> 1
    \<and> (\<forall>votes'. same_ballots votes votes' \<longrightarrow>
         cr_result (calculateConsensus now votes') = cr_result (calculateConsensus now votes)
       \<and> cr_confidence (calculateConsensus now votes') = cr_confidence (calculateConsensus now votes)
       \<and> cr_result (ollama_calculateConsensus now votes') = cr_result (ollama_calculateConsensus now votes)
       \<and> cr_confidence (ollama_calculateConsensus now votes') = cr_confidence (ollama_calculateConsensus now votes))"
proof -
  obtain p where r: "r = tally p now votes"
    using assms by (auto simp: calculateConsensus_def ollama_calculateConsensus_def)
  have excl: "(of_nat (votes_for ''agree'' votes) :: rat) > of_nat (length votes) / 2 \<Longrightarrow>
      \<not> (of_nat (votes_for ''disagree'' votes) :: rat) > of_nat (length votes) / 2"
    by (rule majority_exclusive)
  have res: "((cr_result r = approved) = ((of_nat (votes_for ''agree'' votes) :: rat) > of_nat (length votes) / 2))
    \<and> ((cr_result r = rejected) = ((of_nat (votes_for ''disagree'' votes) :: rat) > of_nat (length votes) / 2))
    \<and> ((cr_result r = deadlock) =
         (\<not> (of_nat (votes_for ''agree'' votes) :: rat) > of_nat (length votes) / 2
          \<and> \<not> (of_nat (votes_for ''disagree'' votes) :: rat) > of_nat (length votes) / 2))"
    using excl by (auto simp: r tally_result)
  have conf: "(cr_result r = approved \<longrightarrow>
         cr_confidence r = of_nat (votes_for ''agree'' votes) / of_nat (length votes))
    \<and> (cr_result r = rejected \<longrightarrow>
         cr_confidence r = of_nat (votes_for ''disagree'' votes) / of_nat (length votes))
    \<and> (cr_result r = deadlock \<longrightarrow> cr_confidence r = 1 / 2)"
    by (auto simp: r tally_result tally_confidence split: if_splits)
  have bounds: "1 / 2 \<le> cr_confidence r \<and> cr_confidence r \<le> 1"
    unfolding r by (rule tally_confidence_bounds)
  have indep: "same_ballots votes votes' \<Longrightarrow>
      cr_result (tally q now votes') = cr_result (tally q now votes)
      \<and> cr_confidence (tally q now votes') = cr_confidence (tally q now votes)" for votes' q
  proof -
    assume s: "same_ballots votes votes'"
    then have "length votes = length votes'"
      unfolding same_ballots_def using map_eq_imp_length_eq by blast
    with votes_for_same[OF s] show ?thesis
      by (simp add: tally_result tally_confidence)
  qed
  show ?thesis
    using res conf bounds indep by (simp add: calculateConsensus_def ollama_calculateConsensus_def)
qed

theorem tally_law_witness:
  "cr_result (calculateConsensus 5 ballots3) = rejected
   \<and> cr_confidence (calculateConsensus 5 ballots3) = 2 / 3
   \<and> votes_for ''disagree'' ballots3 = 2 \<and> length ballots3 = 3"
proof -
  have v: "votes_for ''disagree'' ballots3 = 2" "votes_for ''agree'' ballots3 = 1" "length ballots3 = 3"
    by (simp_all add: votes_for_def ballots3_def)
  from tally_law[of "calculateConsensus 5 ballots3" 5 ballots3] v
  show ?thesis by simp
qed

section \<open>String matching\<close>

lemma starts_with_iff: "starts_with p s = (\<exists>t. s = p @ t)"
  by (induction p s rule: starts_with.induct) auto

lemma match_here_iff:
  "(starts_with ''round_'' s \<and> takeWhile is_digit (drop 6 s) \<noteq> [])
   = (\<exists>d rest. s = ''round_'' @ d # rest \<and> is_digit d)"
proof
  assume a: "starts_with ''round_'' s \<and> takeWhile is_digit (drop 6 s) \<noteq> []"
  then obtain t where t: "s = ''round_'' @ t" by (auto simp: starts_with_iff)
  with a have "takeWhile is_digit t \<noteq> []" by simp
  then obtain d rest where "t = d # rest" "is_digit d"
    by (cases t) (auto split: if_splits)
  with t show "\<exists>d rest. s = ''round_'' @ d # rest \<and> is_digit d" by blast
next
  assume "\<exists>d rest. s = ''round_'' @ d # rest \<and> is_digit d"
  then obtain d rest where s: "s = ''round_'' @ d # rest" and d: "is_digit d" by blast
  have "starts_with ''round_'' s" unfolding starts_with_iff using s by blast
  moreover have "takeWhile is_digit (drop 6 s) \<noteq> []" using s d by simp
  ultimately show "starts_with ''round_'' s \<and> takeWhile is_digit (drop 6 s) \<noteq> []" ..
qed

lemma round_match_hit:
  "starts_with ''round_'' (c # cs) \<and> takeWhile is_digit (drop 6 (c # cs)) \<noteq> [] \<Longrightarrow>
   round_match (c # cs) = Some (takeWhile is_digit (drop 6 (c # cs)))"
  by (subst round_match.simps, rule if_P, assumption)

lemma round_match_miss:
  "\<not> (starts_with ''round_'' (c # cs) \<and> takeWhile is_digit (drop 6 (c # cs)) \<noteq> []) \<Longrightarrow>
   round_match (c # cs) = round_match cs"
  by (subst round_match.simps, rule if_not_P, assumption)

lemma round_match_None:
  "(round_match s = None) = (\<not> (\<exists>pre d rest. s = pre @ ''round_'' @ d # rest \<and> is_digit d))"
proof (induction s)
  case Nil
  then show ?case by simp
next
  case (Cons c cs)
  show ?case
  proof (cases "starts_with ''round_'' (c # cs) \<and> takeWhile is_digit (drop 6 (c # cs)) \<noteq> []")
    case True
    then obtain d rest where "c # cs = [] @ ''round_'' @ d # rest \<and> is_digit d"
      unfolding match_here_iff by auto
    then have ex: "\<exists>pre d rest. c # cs = pre @ ''round_'' @ d # rest \<and> is_digit d" by blast
    have "round_match (c # cs) = Some (takeWhile is_digit (drop 6 (c # cs)))"
      using True by (rule round_match_hit)
    with ex show ?thesis by simp
  next
    case False
    then have rm: "round_match (c # cs) = round_match cs"
      by (rule round_match_miss)
    have "(\<exists>pre d rest. c # cs = pre @ ''round_'' @ d # rest \<and> is_digit d)
        = (\<exists>pre d rest. cs = pre @ ''round_'' @ d # rest \<and> is_digit d)"
    proof
      assume "\<exists>pre d rest. c # cs = pre @ ''round_'' @ d # rest \<and> is_digit d"
      then obtain pre d rest where e: "c # cs = pre @ ''round_'' @ d # rest" and d: "is_digit d"
        by blast
      show "\<exists>pre d rest. cs = pre @ ''round_'' @ d # rest \<and> is_digit d"
      proof (cases pre)
        case Nil
        with e d have "\<exists>d rest. c # cs = ''round_'' @ d # rest \<and> is_digit d" by auto
        with False show ?thesis unfolding match_here_iff by blast
      next
        case (Cons p pre')
        with e have "cs = pre' @ ''round_'' @ d # rest" by simp
        with d show ?thesis by blast
      qed
    next
      assume "\<exists>pre d rest. cs = pre @ ''round_'' @ d # rest \<and> is_digit d"
      then obtain pre d rest where "cs = pre @ ''round_'' @ d # rest" "is_digit d" by blast
      then have "c # cs = (c # pre) @ ''round_'' @ d # rest \<and> is_digit d" by simp
      then show "\<exists>pre d rest. c # cs = pre @ ''round_'' @ d # rest \<and> is_digit d" by blast
    qed
    with rm Cons.IH show ?thesis by simp
  qed
qed

lemma takeWhile_digits:
  assumes "\<forall>c\<in>set ds. is_digit c" and "post = [] \<or> \<not> is_digit (hd post)"
  shows "takeWhile is_digit (ds @ post) = ds"
proof -
  have "takeWhile is_digit post = []" using assms(2) by (cases post) auto
  with assms(1) show ?thesis by (simp add: takeWhile_append2)
qed

lemma round_match_leftmost:
  assumes "ds \<noteq> []" and "\<forall>c\<in>set ds. is_digit c" and "post = [] \<or> \<not> is_digit (hd post)"
    and "\<forall>pre' d rest. pre @ ''round_'' @ ds @ post = pre' @ ''round_'' @ d # rest \<and> is_digit d
           \<longrightarrow> length pre \<le> length pre'"
  shows "round_match (pre @ ''round_'' @ ds @ post) = Some ds"
  using assms(4)
proof (induction pre)
  case Nil
  have tw: "takeWhile is_digit (ds @ post) = ds" by (rule takeWhile_digits[OF assms(2,3)])
  have "starts_with ''round_'' (''round_'' @ ds @ post)" unfolding starts_with_iff by blast
  moreover have "drop 6 (''round_'' @ ds @ post) = ds @ post" by simp
  ultimately have "starts_with ''round_'' (CHR ''r'' # ''ound_'' @ ds @ post)
      \<and> takeWhile is_digit (drop 6 (CHR ''r'' # ''ound_'' @ ds @ post)) \<noteq> []"
    using tw assms(1) by simp
  from round_match_hit[OF this] tw show ?case by simp
next
  case (Cons p pre)
  define t where "t = pre @ ''round_'' @ ds @ post"
  have s: "(p # pre) @ ''round_'' @ ds @ post = p # t" by (simp add: t_def)
  have nohere: "\<not> (starts_with ''round_'' (p # t) \<and> takeWhile is_digit (drop 6 (p # t)) \<noteq> [])"
  proof
    assume "starts_with ''round_'' (p # t) \<and> takeWhile is_digit (drop 6 (p # t)) \<noteq> []"
    then obtain d rest where "p # t = [] @ ''round_'' @ d # rest \<and> is_digit d"
      unfolding match_here_iff by auto
    with Cons.prems have "length (p # pre) \<le> length ([] :: string)" unfolding s by blast
    then show False by simp
  qed
  have step: "round_match (p # t) = round_match t"
    using nohere by (rule round_match_miss)
  have "\<forall>pre' d rest. pre @ ''round_'' @ ds @ post = pre' @ ''round_'' @ d # rest \<and> is_digit d
           \<longrightarrow> length pre \<le> length pre'"
  proof (intro allI impI)
    fix pre' d rest
    assume "pre @ ''round_'' @ ds @ post = pre' @ ''round_'' @ d # rest \<and> is_digit d"
    then have "(p # pre) @ ''round_'' @ ds @ post = (p # pre') @ ''round_'' @ d # rest \<and> is_digit d"
      by simp
    with Cons.prems have "length (p # pre) \<le> length (p # pre')" by blast
    then show "length pre \<le> length pre'" by simp
  qed
  from Cons.IH[OF this] have "round_match t = Some ds" by (simp add: t_def)
  with step show ?case unfolding s by simp
qed

lemma logConsensusDecision_round:
  "md_consensusRound (km_metadata (pr_value (fst (last (handed (snd (logConsensusDecision env a w s decision k)))))))
   = Some (extractConsensusRound (dd_proposalId decision))"
  by (simp add: logConsensusDecision_def publishMessage_def getNextSequence_def Let_def)

section \<open>Consensus round of a logged decision\<close>

lemma bit_length_2_53: "bit_length (2 ^ 53) = 54"
  by (simp add: bit_length.simps)

lemma to_double_exact:
  assumes "n \<le> 2 ^ 53"
  shows "to_double n = JsInt n"
proof (cases "n < 2 ^ 53")
  case True
  then show ?thesis by (simp add: to_double_def)
next
  case False
  with assms have n: "n = 2 ^ 53" by simp
  show ?thesis unfolding n to_double_def Let_def bit_length_2_53 by simp
qed

lemma extractConsensusRound_leftmost:
  assumes h: "pid = pre @ ''round_'' @ ds @ post
         \<and> ds \<noteq> [] \<and> (\<forall>c\<in>set ds. is_digit c) \<and> (post = [] \<or> \<not> is_digit (hd post))
         \<and> (\<forall>pre' d rest. pid = pre' @ ''round_'' @ d # rest \<and> is_digit d
               \<longrightarrow> length pre \<le> length pre')"
  shows "extractConsensusRound pid = parseInt ds"
proof -
  from h have e: "pid = pre @ ''round_'' @ ds @ post" by blast
  from h have h1: "ds \<noteq> []" and h2: "\<forall>c\<in>set ds. is_digit c"
    and h3: "post = [] \<or> \<not> is_digit (hd post)" by blast+
  from h have h4: "\<forall>pre' d rest. pre @ ''round_'' @ ds @ post = pre' @ ''round_'' @ d # rest \<and> is_digit d
               \<longrightarrow> length pre \<le> length pre'"
    unfolding e by blast
  have "round_match (pre @ ''round_'' @ ds @ post) = Some ds"
    by (rule round_match_leftmost[OF h1 h2 h3 h4])
  then show ?thesis by (simp add: extractConsensusRound_def e)
qed

text \<open>
  The proposal id \<open>round_1_round_2\<close> contains the substring \<open>round_2\<close> (the one a
  greedy reading of \<open>.*round_(\d+).*\<close> captures), yet the logged round is \<open>1\<close>: the
  code's unanchored \<open>/round_(\d+)/\<close> stops at the leftmost match. And for the proposal id
  \<open>round_9007199254740993\<close> the logged round is \<open>9007199254740992\<close>, not the integer
  the digits denote: \<open>parseInt\<close> returns the nearest double.
\<close>

theorem consensusRound_counterexample:
  "''round_1_round_2'' = ''round_1_'' @ ''round_'' @ ''2'' @ []
   \<and> decimal_value ''2'' = 2
   \<and> logged_round ''round_1_round_2'' = Some (JsInt 1)
   \<and> decimal_value ''9007199254740993'' = 9007199254740993
   \<and> logged_round ''round_9007199254740993'' = Some (JsInt 9007199254740992)"
proof -
  have d2: "decimal_value ''2'' = 2" by (simp add: decimal_value_def digit_val_def)
  have dbig: "decimal_value ''9007199254740993'' = 9007199254740993"
    by (simp add: decimal_value_def digit_val_def)
  have r1: "round_match ''round_1_round_2'' = Some ''1''" by (simp add: is_digit_def)
  have r2: "round_match ''round_9007199254740993'' = Some ''9007199254740993''"
    by (simp add: is_digit_def)
  have d1: "to_double (decimal_value ''1'') = JsInt 1"
    by (simp add: decimal_value_def digit_val_def to_double_def)
  have big: "to_double 9007199254740993 = JsInt 9007199254740992"
    by (simp add: to_double_def bit_length.simps Let_def)
  have e1: "extractConsensusRound ''round_1_round_2'' = JsInt 1"
    unfolding extractConsensusRound_def r1 option.case parseInt_def by (rule d1)
  have e2: "extractConsensusRound ''round_9007199254740993'' = JsInt 9007199254740992"
    unfolding extractConsensusRound_def r2 option.case parseInt_def dbig by (rule big)
  have l1: "logged_round ''round_1_round_2'' = Some (JsInt 1)"
    unfolding logged_round_def logConsensusDecision_round
    by (simp add: decision_on_def e1)
  have l2: "logged_round ''round_9007199254740993'' = Some (JsInt 9007199254740992)"
    unfolding logged_round_def logConsensusDecision_round
    by (simp add: decision_on_def e2)
  from d2 dbig l1 l2 show ?thesis by simp
qed

text \<open>
  C9 (amended). The message produced by \<open>logConsensusDecision\<close> carries
  \<open>metadata.consensusRound = extractConsensusRound proposalId\<close>. When the proposal id
  contains \<open>round_\<close> followed by a digit, the round is \<open>parseInt\<close> of the whole run of
  digits after the leftmost such occurrence, which is the integer those digits denote
  provided that integer is at most \<open>2 ^ 53\<close>; when there is no such occurrence, the round
  is \<open>1\<close>.
\<close>

theorem consensusRound_leftmost_match:
  "md_consensusRound (km_metadata (pr_value (fst (last (handed (snd
       (logConsensusDecision env a w s decision k)))))))
     = Some (extractConsensusRound (dd_proposalId decision))
   \<and> (\<forall>pre ds post.
         dd_proposalId decision = pre @ ''round_'' @ ds @ post
         \<and> ds \<noteq> [] \<and> (\<forall>c\<in>set ds. is_digit c) \<and> (post = [] \<or> \<not> is_digit (hd post))
         \<and> (\<forall>pre' d rest. dd_proposalId decision = pre' @ ''round_'' @ d # rest \<and> is_digit d
               \<longrightarrow> length pre \<le> length pre')
         \<longrightarrow> extractConsensusRound (dd_proposalId decision) = parseInt ds
             \<and> (decimal_value ds \<le> 2 ^ 53
                  \<longrightarrow> extractConsensusRound (dd_proposalId decision) = JsInt (decimal_value ds)))
   \<and> ((\<forall>pre d rest. dd_proposalId decision = pre @ ''round_'' @ d # rest \<longrightarrow> \<not> is_digit d)
         \<longrightarrow> extractConsensusRound (dd_proposalId decision) = JsInt 1)"
proof (intro conjI allI impI)
  show "md_consensusRound (km_metadata (pr_value (fst (last (handed (snd
       (logConsensusDecision env a w s decision k)))))))
     = Some (extractConsensusRound (dd_proposalId decision))"
    by (rule logConsensusDecision_round)
next
  fix pre ds post
  assume "dd_proposalId decision = pre @ ''round_'' @ ds @ post
         \<and> ds \<noteq> [] \<and> (\<forall>c\<in>set ds. is_digit c) \<and> (post = [] \<or> \<not> is_digit (hd post))
         \<and> (\<forall>pre' d rest. dd_proposalId decision = pre' @ ''round_'' @ d # rest \<and> is_digit d
               \<longrightarrow> length pre \<le> length pre')"
  then show "extractConsensusRound (dd_proposalId decision) = parseInt ds"
    by (rule extractConsensusRound_leftmost)
next
  fix pre ds post
  assume "dd_proposalId decision = pre @ ''round_'' @ ds @ post
         \<and> ds \<noteq> [] \<and> (\<forall>c\<in>set ds. is_digit c) \<and> (post = [] \<or> \<not> is_digit (hd post))
         \<and> (\<forall>pre' d rest. dd_proposalId decision = pre' @ ''round_'' @ d # rest \<and> is_digit d
               \<longrightarrow> length pre \<le> length pre')"
  then have p: "extractConsensusRound (dd_proposalId decision) = parseInt ds"
    by (rule extractConsensusRound_leftmost)
  assume "decimal_value ds \<le> 2 ^ 53"
  then have "to_double (decimal_value ds) = JsInt (decimal_value ds)" by (rule to_double_exact)
  with p show "extractConsensusRound (dd_proposalId decision) = JsInt (decimal_value ds)"
    by (simp add: parseInt_def)
next
  assume "\<forall>pre d rest. dd_proposalId decision = pre @ ''round_'' @ d # rest \<longrightarrow> \<not> is_digit d"
  then have "round_match (dd_proposalId decision) = None"
    unfolding round_match_None by blast
  then show "extractConsensusRound (dd_proposalId decision) = JsInt 1"
    by (simp add: extractConsensusRound_def)
qed

theorem consensusRound_leftmost_match_witness:
  "logged_round ''round_12_b'' = Some (JsInt 12) \<and> decimal_value ''12'' = 12
   \<and> ''round_12_b'' = [] @ ''round_'' @ ''12'' @ ''_b''
   \<and> extractConsensusRound ''p7'' = JsInt 1 \<and> round_match ''p7'' = None"
proof -
  let ?d = "decision_on ''round_12_b''"
  have p: "decimal_value ''12'' = 12" by (simp add: decimal_value_def digit_val_def)
  then have bound: "decimal_value ''12'' \<le> 2 ^ 53" by simp
  have hyp: "dd_proposalId ?d = [] @ ''round_'' @ ''12'' @ ''_b''
         \<and> ''12'' \<noteq> [] \<and> (\<forall>c\<in>set ''12''. is_digit c) \<and> (''_b'' = [] \<or> \<not> is_digit (hd ''_b''))
         \<and> (\<forall>pre' d rest. dd_proposalId ?d = pre' @ ''round_'' @ d # rest \<and> is_digit d
               \<longrightarrow> length ([] :: string) \<le> length pre')"
    by (simp add: decision_on_def is_digit_def)
  have none: "round_match ''p7'' = None" by simp
  then have hyp2: "\<forall>pre d rest. dd_proposalId (decision_on ''p7'') = pre @ ''round_'' @ d # rest \<longrightarrow> \<not> is_digit d"
    unfolding round_match_None by (simp add: decision_on_def)
  note T = consensusRound_leftmost_match[of env0 "''agent1''" "''ws1''" "''session1''" ?d kafka_new]
  have a: "logged_round ''round_12_b'' = Some (extractConsensusRound (dd_proposalId ?d))"
    unfolding logged_round_def by (rule T[THEN conjunct1])
  have b: "extractConsensusRound (dd_proposalId ?d) = JsInt (decimal_value ''12'')"
    by (rule mp[OF T[THEN conjunct2, THEN conjunct1, rule_format, OF hyp, THEN conjunct2] bound])
  note U = consensusRound_leftmost_match[of env0 "''agent1''" "''ws1''" "''session1''"
      "decision_on ''p7''" kafka_new]
  have "extractConsensusRound (dd_proposalId (decision_on ''p7'')) = JsInt 1"
    by (rule mp[OF U[THEN conjunct2, THEN conjunct2] hyp2])
  then have c: "extractConsensusRound ''p7'' = JsInt 1" by (simp add: decision_on_def)
  from a b c p none show ?thesis by simp
qed

section \<open>Sequence numbers of the durable-store producer\<close>

lemma perform_sequence:
  "sequenceNumber (snd (kafka_perform c k)) = sequenceNumber k + 1
   \<and> sequence_numbers (snd (kafka_perform c k)) = sequence_numbers k @ [sequenceNumber k + 1]"
  by (cases c)
    (simp_all add: sequence_numbers_def logFileEdit_def saveWorkspaceSnapshot_def
      logConsensusDecision_def logAgentCoordination_def logConflictResolution_def
      startWorkspaceSession_def endWorkspaceSession_def publishMessage_def getNextSequence_def Let_def)

lemma calls_sequence:
  "sequenceNumber (kafka_calls cs k) = sequenceNumber k + length cs
   \<and> sequence_numbers (kafka_calls cs k)
       = sequence_numbers k @ [Suc (sequenceNumber k) ..< Suc (sequenceNumber k + length cs)]"
proof (induction cs arbitrary: k)
  case Nil
  show ?case by simp
next
  case (Cons c cs)
  let ?k = "snd (kafka_perform c k)"
  have sn: "sequenceNumber ?k = Suc (sequenceNumber k)"
    and sq: "sequence_numbers ?k = sequence_numbers k @ [Suc (sequenceNumber k)]"
    using perform_sequence[of c k] by simp_all
  have u: "[Suc (sequenceNumber k) ..< Suc (sequenceNumber k + length (c # cs))]
      = Suc (sequenceNumber k) # [Suc (Suc (sequenceNumber k)) ..< Suc (Suc (sequenceNumber k) + length cs)]"
    by (subst upt_conv_Cons) simp_all
  from Cons.IH[of ?k] have "sequenceNumber (kafka_calls cs ?k) = Suc (sequenceNumber k) + length cs"
    and "sequence_numbers (kafka_calls cs ?k)
       = (sequence_numbers k @ [Suc (sequenceNumber k)])
         @ [Suc (Suc (sequenceNumber k)) ..< Suc (Suc (sequenceNumber k) + length cs)]"
    unfolding sn sq by blast+
  then show ?case unfolding u by simp
qed

lemma sequence_numbers_new: "sequence_numbers (kafka_calls cs kafka_new) = [Suc 0 ..< Suc (length cs)]"
  using calls_sequence[of cs kafka_new] by (simp add: kafka_new_def sequence_numbers_def)

text \<open>
  C5. Starting from a fresh orchestrator, after any series of calls of the seven logging
  methods, of any two records handed to the producer the later one carries the strictly
  greater \<open>metadata.sequenceNumber\<close>, whatever their topics and whether or not the sends
  succeeded.
\<close>

theorem sequence_strictly_increasing:
  assumes "i < j" and "j < length (handed (kafka_calls cs kafka_new))"
  shows "md_sequenceNumber (km_metadata (pr_value (fst (handed (kafka_calls cs kafka_new) ! i))))
       < md_sequenceNumber (km_metadata (pr_value (fst (handed (kafka_calls cs kafka_new) ! j))))"
proof -
  let ?k = "kafka_calls cs kafka_new"
  have len: "length (handed ?k) = length cs"
    using arg_cong[OF sequence_numbers_new[of cs], of length]
    by (simp add: sequence_numbers_def del: upt_Suc)
  have nth: "n < length cs \<Longrightarrow>
      md_sequenceNumber (km_metadata (pr_value (fst (handed ?k ! n)))) = n + 1" for n
  proof -
    assume n: "n < length cs"
    then have "sequence_numbers ?k ! n = md_sequenceNumber (km_metadata (pr_value (fst (handed ?k ! n))))"
      using len by (simp add: sequence_numbers_def)
    moreover have "sequence_numbers ?k ! n = n + 1"
      using n by (simp add: sequence_numbers_new del: upt_Suc)
    ultimately show ?thesis by simp
  qed
  from assms len have "i < length cs" "j < length cs" by simp_all
  with nth assms(1) show ?thesis by simp
qed

theorem sequence_strictly_increasing_witness:
  "(0::nat) < 1 \<and> 1 < length (handed (kafka_calls two_calls kafka_new))
   \<and> map (pr_topic \<circ> fst) (handed (kafka_calls two_calls kafka_new))
       = [''autogen-edit-history'', ''autogen-consensus-decisions'']
   \<and> sequence_numbers (kafka_calls two_calls kafka_new) = [1, 2]"
proof -
  have l: "length (handed (kafka_calls two_calls kafka_new)) = 2"
    and t: "map (pr_topic \<circ> fst) (handed (kafka_calls two_calls kafka_new))
       = [''autogen-edit-history'', ''autogen-consensus-decisions'']"
    and sq: "sequence_numbers (kafka_calls two_calls kafka_new) = [1, 2]"
    by (simp_all add: two_calls_def kafka_new_def env0_def logFileEdit_def logConsensusDecision_def
        publishMessage_def getNextSequence_def sequence_numbers_def Let_def)
  have "(0::nat) < 1" by simp
  moreover have "1 < length (handed (kafka_calls two_calls kafka_new))" using l by simp
  ultimately have "md_sequenceNumber (km_metadata (pr_value (fst (handed (kafka_calls two_calls kafka_new) ! 0))))
       < md_sequenceNumber (km_metadata (pr_value (fst (handed (kafka_calls two_calls kafka_new) ! 1))))"
    by (rule sequence_strictly_increasing)
  with l t sq show ?thesis by simp
qed

section \<open>Locks of the fast store\<close>

lemmas redis_defs = requestFileLock_def releaseFileLock_def processLockQueue_def queueLockRequest_def
  publishLockEvent_def publishToStream_def lock_event_message_def lock_release_failed_def lock_request_failed_def
  redis_get_def redis_set_px_def redis_set_px_nx_def redis_sadd_def redis_srem_def redis_scard_def
  redis_del_def redis_lpush_def redis_rpop_def lookup_def expiry_of_def lock_key_def queue_key_def
  redis_new_def line_terminator_def Let_def

text \<open>
  C1. Agent A releases its read lock on \<open>/f\<close>, agent B takes the write lock, and agent A
  releases again with its old reader-scoped lock id. Agent A is not a reader (there is
  no readers set), the call returns false, and yet the lock record of agent B is deleted.
\<close>

theorem stale_reader_release_deletes_write_lock:
  "lookup (store write_held_by_B) 1003 (lock_key ''ws1'' ''/f'')
     = Some (StringVal \<lparr>li_agentId = ''agentB'', li_lockType = lock_write, li_timestamp = 1002,
               li_workspaceId = ''ws1'', li_filePath = ''/f''\<rparr>)
   \<and> lookup (store write_held_by_B) 1003 (lock_key ''ws1'' ''/f'' @ '':readers'') = None
   \<and> fst (releaseFileLock 1003 ''r4'' (lock_key ''ws1'' ''/f'' @ '':readers:agentA'') ''agentA''
            write_held_by_B) = False
   \<and> lookup (store (snd (releaseFileLock 1003 ''r4'' (lock_key ''ws1'' ''/f'' @ '':readers:agentA'')
            ''agentA'' write_held_by_B))) 1003 (lock_key ''ws1'' ''/f'') = None"
  by (simp add: write_held_by_B_def read_held_by_A_def redis_defs)

text \<open>
  C2. Agent A holds a read lock on \<open>/f\<close> and requests a read lock on \<open>/f\<close> again. The
  call returns null and appends agent A to the waiters queue; the readers set is
  unchanged.
\<close>

theorem reentrant_read_is_refused_and_queued:
  "lookup (store read_held_by_A) 1001 (lock_key ''ws1'' ''/f'')
     = Some (StringVal \<lparr>li_agentId = ''agentA'', li_lockType = lock_read, li_timestamp = 1000,
               li_workspaceId = ''ws1'', li_filePath = ''/f''\<rparr>)
   \<and> lookup (store read_held_by_A) 1001 (lock_key ''ws1'' ''/f'' @ '':readers'') = Some (SetVal [''agentA''])
   \<and> lookup (store read_held_by_A) 1001 (queue_key ''ws1'' ''/f'') = None
   \<and> fst (requestFileLock 1001 ''r2'' ''agentA'' ''ws1'' ''/f'' lock_read read_held_by_A) = None
   \<and> lookup (store (snd (requestFileLock 1001 ''r2'' ''agentA'' ''ws1'' ''/f'' lock_read read_held_by_A)))
        1001 (queue_key ''ws1'' ''/f'')
     = Some (ListVal [\<lparr>li_agentId = ''agentA'', li_lockType = lock_read, li_timestamp = 1001,
               li_workspaceId = ''ws1'', li_filePath = ''/f''\<rparr>])
   \<and> lookup (store (snd (requestFileLock 1001 ''r2'' ''agentA'' ''ws1'' ''/f'' lock_read read_held_by_A)))
        1001 (lock_key ''ws1'' ''/f'' @ '':readers'') = Some (SetVal [''agentA''])"
  by (simp add: read_held_by_A_def redis_defs)

text \<open>
  C3. Agent A holds the write lock on \<open>/f\<close> and agent B's write request is the only
  waiter. Agent A's release succeeds and publishes \<open>lock_released\<close>, but no
  \<open>lock_retry\<close> event is emitted and agent B's entry stays in the queue: the queue key is
  rebuilt as \<open>autogen:state:edit_queue:locks:ws1:/f\<close>.
\<close>

theorem release_leaves_waiter_in_queue:
  "lookup (store write_held_B_waiting) 1002 (queue_key ''ws1'' ''/f'')
     = Some (ListVal [\<lparr>li_agentId = ''agentB'', li_lockType = lock_write, li_timestamp = 1001,
               li_workspaceId = ''ws1'', li_filePath = ''/f''\<rparr>])
   \<and> fst (releaseFileLock 1002 ''r3'' (lock_key ''ws1'' ''/f'') ''agentA'' write_held_B_waiting) = True
   \<and> map (\<lambda>e. lp_eventType (sm_payload (snd e)))
        (stream_log (snd (releaseFileLock 1002 ''r3'' (lock_key ''ws1'' ''/f'') ''agentA'' write_held_B_waiting)))
     = [''lock_acquired'', ''lock_released'']
   \<and> redis_events (snd (releaseFileLock 1002 ''r3'' (lock_key ''ws1'' ''/f'') ''agentA'' write_held_B_waiting)) = []
   \<and> lookup (store (snd (releaseFileLock 1002 ''r3'' (lock_key ''ws1'' ''/f'') ''agentA'' write_held_B_waiting)))
        1002 (queue_key ''ws1'' ''/f'')
     = Some (ListVal [\<lparr>li_agentId = ''agentB'', li_lockType = lock_write, li_timestamp = 1001,
               li_workspaceId = ''ws1'', li_filePath = ''/f''\<rparr>])
   \<and> queue_key (split_colon (lock_key ''ws1'' ''/f'') ! 2) (join_colon (drop 3 (split_colon (lock_key ''ws1'' ''/f''))))
     = ''autogen:state:edit_queue:locks:ws1:/f''"
  by (simp add: write_held_B_waiting_def redis_defs)

section \<open>Envelope of a lock release\<close>

lemma processLockQueue_keeps_log:
  "processLockQueue now k r = Inr r' \<Longrightarrow> stream_log r' = stream_log r"
  by (auto simp: processLockQueue_def Let_def split: if_splits sum.splits option.splits prod.splits)

lemma publishLockEvent_log:
  "stream_log (publishLockEvent now rid ev a w f t r)
     = stream_log r @ [(''autogen:locks'', lock_event_message now rid ev a w f t)]"
  by (simp add: publishLockEvent_def publishToStream_def)

lemma read_release_log:
  assumes "str_includes '':readers:'' lockId"
    and "releaseFileLock now rid lockId agentId r = (True, r')"
  shows "stream_log r' = stream_log r
           @ [(''autogen:locks'', lock_event_message now rid ''lock_released'' agentId [] [] lock_read)]"
  using assms
  by (auto simp: releaseFileLock_def Let_def publishLockEvent_log
      dest!: processLockQueue_keeps_log split: if_splits sum.splits prod.splits)

lemma write_release_log:
  assumes "\<not> str_includes '':readers:'' lockId"
    and "releaseFileLock now rid lockId agentId r = (True, r')"
  shows "\<exists>lock. redis_get (store r) now lockId = Inr (Some lock) \<and> li_agentId lock = agentId
           \<and> stream_log r' = stream_log r
               @ [(''autogen:locks'', lock_event_message now rid ''lock_released'' agentId
                     (li_workspaceId lock) (li_filePath lock) (li_lockType lock))]"
  using assms
  by (auto simp: releaseFileLock_def Let_def publishLockEvent_log
      dest!: processLockQueue_keeps_log split: if_splits sum.splits prod.splits option.splits)

text \<open>
  C10. A release that returns true appends exactly one \<open>lock_released\<close> envelope to the
  locks stream. For a reader-scoped lock id its metadata carries the empty string as
  workspace and as file path (the envelope depends on the time, the random id and the
  agent only); for any other lock id it carries the workspace and the file path stored
  in the lock record.
\<close>

theorem release_envelope_metadata:
  assumes "releaseFileLock now rid lockId agentId r = (True, r')"
  shows "\<exists>m. stream_log r' = stream_log r @ [(''autogen:locks'', m)]
           \<and> sm_type m = file_lock \<and> lp_eventType (sm_payload m) = ''lock_released''
           \<and> (if str_includes '':readers:'' lockId
               then m = lock_event_message now rid ''lock_released'' agentId [] [] lock_read
                    \<and> smd_workspaceId (sm_metadata m) = [] \<and> smd_filePath (sm_metadata m) = Some []
               else (\<exists>lock. redis_get (store r) now lockId = Inr (Some lock)
                    \<and> smd_workspaceId (sm_metadata m) = li_workspaceId lock
                    \<and> smd_filePath (sm_metadata m) = Some (li_filePath lock)))"
proof (cases "str_includes '':readers:'' lockId")
  case True
  from read_release_log[OF True assms] True show ?thesis
    by (simp add: lock_event_message_def)
next
  case False
  from write_release_log[OF False assms] obtain lock where
    "redis_get (store r) now lockId = Inr (Some lock)"
    "stream_log r' = stream_log r
               @ [(''autogen:locks'', lock_event_message now rid ''lock_released'' agentId
                     (li_workspaceId lock) (li_filePath lock) (li_lockType lock))]"
    by blast
  with False show ?thesis by (simp add: lock_event_message_def)
qed

theorem release_envelope_metadata_witness:
  "fst (releaseFileLock 1001 ''r2'' (lock_key ''ws1'' ''/f'' @ '':readers:agentA'') ''agentA'' read_held_by_A)
   \<and> map (\<lambda>e. (lp_eventType (sm_payload (snd e)), smd_workspaceId (sm_metadata (snd e)),
                smd_filePath (sm_metadata (snd e))))
        (stream_log (snd (releaseFileLock 1001 ''r2'' (lock_key ''ws1'' ''/f'' @ '':readers:agentA'')
           ''agentA'' read_held_by_A)))
      = [(''lock_acquired'', ''ws1'', Some ''/f''), (''lock_released'', [], Some [])]
   \<and> fst (releaseFileLock 1002 ''r3'' (lock_key ''ws1'' ''/f'') ''agentA'' write_held_B_waiting)
   \<and> map (\<lambda>e. (lp_eventType (sm_payload (snd e)), smd_workspaceId (sm_metadata (snd e)),
                smd_filePath (sm_metadata (snd e))))
        (stream_log (snd (releaseFileLock 1002 ''r3'' (lock_key ''ws1'' ''/f'') ''agentA''
           write_held_B_waiting)))
      = [(''lock_acquired'', ''ws1'', Some ''/f''), (''lock_released'', ''ws1'', Some ''/f'')]"
proof -
  let ?rel1 = "releaseFileLock 1001 ''r2'' (lock_key ''ws1'' ''/f'' @ '':readers:agentA'') ''agentA'' read_held_by_A"
  let ?rel2 = "releaseFileLock 1002 ''r3'' (lock_key ''ws1'' ''/f'') ''agentA'' write_held_B_waiting"
  have f1: "fst ?rel1" and f2: "fst ?rel2"
    by (simp_all add: read_held_by_A_def write_held_B_waiting_def redis_defs)
  have l1: "map (\<lambda>e. (lp_eventType (sm_payload (snd e)), smd_workspaceId (sm_metadata (snd e)),
                smd_filePath (sm_metadata (snd e)))) (stream_log read_held_by_A)
            = [(''lock_acquired'', ''ws1'', Some ''/f'')]"
    and l2: "map (\<lambda>e. (lp_eventType (sm_payload (snd e)), smd_workspaceId (sm_metadata (snd e)),
                smd_filePath (sm_metadata (snd e)))) (stream_log write_held_B_waiting)
            = [(''lock_acquired'', ''ws1'', Some ''/f'')]"
    by (simp_all add: read_held_by_A_def write_held_B_waiting_def redis_defs)
  have g: "redis_get (store write_held_B_waiting) 1002 (lock_key ''ws1'' ''/f'')
      = Inr (Some \<lparr>li_agentId = ''agentA'', li_lockType = lock_write, li_timestamp = 1000,
               li_workspaceId = ''ws1'', li_filePath = ''/f''\<rparr>)"
    by (simp add: write_held_B_waiting_def redis_defs)
  have inc: "str_includes '':readers:'' (lock_key ''ws1'' ''/f'' @ '':readers:agentA'')"
    "\<not> str_includes '':readers:'' (lock_key ''ws1'' ''/f'')"
    by (simp_all add: lock_key_def)
  from f1 have e1: "?rel1 = (True, snd ?rel1)" by (cases ?rel1) simp
  from f2 have e2: "?rel2 = (True, snd ?rel2)" by (cases ?rel2) simp
  from release_envelope_metadata[OF e1] inc(1) l1
  have r1: "map (\<lambda>e. (lp_eventType (sm_payload (snd e)), smd_workspaceId (sm_metadata (snd e)),
                smd_filePath (sm_metadata (snd e)))) (stream_log (snd ?rel1))
      = [(''lock_acquired'', ''ws1'', Some ''/f''), (''lock_released'', [], Some [])]"
    by (auto simp del: str_includes.simps)
  from release_envelope_metadata[OF e2] inc(2) l2 g
  have r2: "map (\<lambda>e. (lp_eventType (sm_payload (snd e)), smd_workspaceId (sm_metadata (snd e)),
                smd_filePath (sm_metadata (snd e)))) (stream_log (snd ?rel2))
      = [(''lock_acquired'', ''ws1'', Some ''/f''), (''lock_released'', ''ws1'', Some ''/f'')]"
    by (auto simp del: str_includes.simps)
  from f1 f2 r1 r2 show ?thesis by simp
qed

section \<open>Fallback lock manager\<close>

text \<open>
  C8. Agents A and B hold read locks on \<open>/f\<close> in the fallback storage. Agent C, which
  holds nothing, releases with a reader-scoped lock id of its own: the call returns
  true, although the record and both holds are left as they were.
\<close>

theorem fallback_release_by_stranger_returns_true:
  "fallback_two_readers ''ws1:/f''
     = Some \<lparr>fl_agentId = ''agentA'', fl_lockType = lock_read, fl_timestamp = 1000,
             fl_workspaceId = ''ws1'', fl_filePath = ''/f'', fl_readers = Some [''agentB'']\<rparr>
   \<and> fst (fallbackLockRelease ''ws1:/f:readers:agentC'' ''agentC'' fallback_two_readers) = True
   \<and> snd (fallbackLockRelease ''ws1:/f:readers:agentC'' ''agentC'' fallback_two_readers) ''ws1:/f''
     = fallback_two_readers ''ws1:/f''"
  by (simp add: fallback_two_readers_def fallbackFileLock_def fallbackLockRelease_def
      line_terminator_def Let_def)

section \<open>Health rollup\<close>









section \<open>Reconnect supervisor\<close>

lemma sched_step_refl: "sched_step s b b"
  by (simp add: sched_step_def)

lemma sched_step_same:
  assumes "cfg_reconnectAttempts b' = cfg_reconnectAttempts b"
    and "cfg_reconnectDelayMs b' = cfg_reconnectDelayMs b"
    and "reconnectAttempts b' s = reconnectAttempts b s"
    and "setTimeout_log b' = setTimeout_log b"
  shows "sched_step s b b'"
  using assms by (simp add: sched_step_def attempts_of_def delays_for_def)

lemma sched_step_cong:
  assumes "sched_step s b1 b2"
    and "cfg_reconnectAttempts b0 = cfg_reconnectAttempts b1"
    and "cfg_reconnectDelayMs b0 = cfg_reconnectDelayMs b1"
    and "attempts_of b0 s = attempts_of b1 s"
    and "delays_for s b0 = delays_for s b1"
  shows "sched_step s b0 b2"
  using assms(1) unfolding sched_step_def assms(2) assms(3) assms(4) assms(5) .

lemma sched_step_cong_right:
  assumes "sched_step s b0 b1"
    and "cfg_reconnectAttempts b2 = cfg_reconnectAttempts b1"
    and "cfg_reconnectDelayMs b2 = cfg_reconnectDelayMs b1"
    and "attempts_of b2 s = attempts_of b1 s"
    and "delays_for s b2 = delays_for s b1"
  shows "sched_step s b0 b2"
  using assms(1) unfolding sched_step_def assms(2) assms(3) assms(4) assms(5) .

lemma attemptReconnect_sched: "sched_step s b (attemptReconnect s' b)"
  by (auto simp: sched_step_def attemptReconnect_def attempts_of_def delays_for_def Let_def
      split: option.splits)

lemma attemptReconnect_other:
  "s' \<noteq> s \<Longrightarrow> reconnectAttempts (attemptReconnect s' b) s = reconnectAttempts b s
     \<and> delays_for s (attemptReconnect s' b) = delays_for s b
     \<and> cfg_reconnectAttempts (attemptReconnect s' b) = cfg_reconnectAttempts b
     \<and> cfg_reconnectDelayMs (attemptReconnect s' b) = cfg_reconnectDelayMs b"
  by (simp add: attemptReconnect_def delays_for_def Let_def)

lemma handleRedisError_sched: "sched_step s b (handleRedisError msg b)"
  unfolding handleRedisError_def Let_def
  by (rule sched_step_cong[OF attemptReconnect_sched])
    (simp_all add: updateOverallHealth_def Let_def attempts_of_def delays_for_def)

lemma handleKafkaError_sched: "sched_step s b (handleKafkaError msg b)"
  unfolding handleKafkaError_def Let_def
  by (rule sched_step_cong[OF attemptReconnect_sched])
    (simp_all add: updateOverallHealth_def Let_def attempts_of_def delays_for_def)

lemma connect_settles_sched: "sched_step s b (connect_settles j ok b)"
proof (cases "j < length (connecting b)")
  case False
  then show ?thesis by (simp add: connect_settles_def sched_step_refl)
next
  case True
  let ?s = "fst (connecting b ! j)"
  let ?a = "snd (connecting b ! j)"
  let ?b1 = "b\<lparr>connecting := take j (connecting b) @ drop (j + 1) (connecting b)\<rparr>"
  let ?b' = "?b1\<lparr>emitted := emitted ?b1 @ [reconnect_attempt_failed ?s (?a + 1)]\<rparr>"
  let ?b2 = "if ok then ?b1
             else if ?a + 1 < cfg_reconnectAttempts ?b'
                  then attemptReconnect ?s (?b'\<lparr>reconnectInProgress := reconnectInProgress ?b' - {?s}\<rparr>)
                  else ?b'"
  have s1: "sched_step s b ?b1" by (rule sched_step_same) simp_all
  have s2: "sched_step s b ?b'" by (rule sched_step_same) simp_all
  have s3: "sched_step s b (attemptReconnect ?s (?b'\<lparr>reconnectInProgress := reconnectInProgress ?b' - {?s}\<rparr>))"
    by (rule sched_step_cong[OF attemptReconnect_sched]) (simp_all add: attempts_of_def delays_for_def)
  have "sched_step s b ?b2"
  proof (cases ok)
    case True
    then have "?b2 = ?b1" by (simp only: if_True)
    with s1 show ?thesis by (simp only:)
  next
    case False
    note nok = False
    show ?thesis
    proof (cases "?a + 1 < cfg_reconnectAttempts ?b'")
      case True
      with nok have "?b2 = attemptReconnect ?s (?b'\<lparr>reconnectInProgress := reconnectInProgress ?b' - {?s}\<rparr>)"
        by (simp only: if_True if_False)
      with s3 show ?thesis by (simp only:)
    next
      case False
      with nok have "?b2 = ?b'" by (simp only: if_False)
      with s2 show ?thesis by (simp only:)
    qed
  qed
  then have fin: "sched_step s b (?b2\<lparr>reconnectInProgress := reconnectInProgress ?b2 - {?s}\<rparr>)"
    by (rule sched_step_cong_right) (simp_all add: attempts_of_def delays_for_def)
  have eq: "connect_settles j ok b = ?b2\<lparr>reconnectInProgress := reconnectInProgress ?b2 - {?s}\<rparr>"
    using True by (simp only: connect_settles_def Let_def if_True)
  show ?thesis unfolding eq by (rule fin)
qed

lemma initialize_redis_settled_sched: "sched_step s b (initialize_redis_settled outcome b)"
proof (cases outcome)
  case None
  show ?thesis unfolding None initialize_redis_settled_def
    by (simp, rule sched_step_same) simp_all
next
  case (Some msg)
  show ?thesis unfolding Some initialize_redis_settled_def
    by (simp add: handleRedisError_sched)
qed

lemma initialize_kafka_settled_sched: "sched_step s b (initialize_kafka_settled outcome b)"
proof (cases outcome)
  case None
  show ?thesis unfolding None initialize_kafka_settled_def
    by (simp, rule sched_step_same) simp_all
next
  case (Some msg)
  show ?thesis unfolding Some initialize_kafka_settled_def
    by (simp add: handleKafkaError_sched)
qed

lemma initialize_finish_sched:
  assumes "sched_step s b b1"
  shows "sched_step s b (initialize_finish b1)"
  unfolding initialize_finish_def Let_def
  by (rule sched_step_cong_right[OF assms])
    (simp_all add: updateOverallHealth_def Let_def attempts_of_def delays_for_def)

lemma step_sched:
  assumes "i \<noteq> Connected s"
  shows "sched_step s b (bridge_step i b)"
proof (cases i)
  case (Connected s')
  with assms have "s' \<noteq> s" by simp
  then show ?thesis unfolding Connected
    by (cases s') (auto intro!: sched_step_same simp: Let_def updateOverallHealth_def)
next
  case (Disconnected s')
  show ?thesis unfolding Disconnected
    by (cases s') (auto intro!: sched_step_same simp: Let_def updateOverallHealth_def)
next
  case (Failed s' msg)
  show ?thesis unfolding Failed
    by (cases s') (simp_all add: handleRedisError_sched handleKafkaError_sched)
next
  case (HealthCheck now)
  show ?thesis unfolding HealthCheck
    by (auto intro!: sched_step_same simp: performHealthCheck_def Let_def)
next
  case (TimerFires n)
  show ?thesis unfolding TimerFires
    by (auto intro!: sched_step_same simp: timer_fires_def)
next
  case (ConnectSettles j ok)
  show ?thesis unfolding ConnectSettles by (simp add: connect_settles_sched)
next
  case (InitializeRedisSettles outcome)
  show ?thesis unfolding InitializeRedisSettles by (simp add: initialize_redis_settled_sched)
next
  case (InitializeKafkaSettles outcome)
  show ?thesis unfolding InitializeKafkaSettles
    by (simp add: initialize_finish_sched[OF initialize_kafka_settled_sched])
qed

lemma step_cfg:
  "cfg_reconnectAttempts (bridge_step i b) = cfg_reconnectAttempts b
   \<and> cfg_reconnectDelayMs (bridge_step i b) = cfg_reconnectDelayMs b"
proof (cases "\<exists>s. i = Connected s")
  case True
  then obtain s where "i = Connected s" ..
  then show ?thesis by (cases s) (simp_all add: Let_def updateOverallHealth_def)
next
  case False
  then have "i \<noteq> Connected redis_service" by blast
  from step_sched[OF this, of b] show ?thesis by (simp add: sched_step_def)
qed

lemma run_cfg:
  "cfg_reconnectAttempts (bridge_run ins b) = cfg_reconnectAttempts b
   \<and> cfg_reconnectDelayMs (bridge_run ins b) = cfg_reconnectDelayMs b"
  by (induction ins arbitrary: b) (simp_all add: step_cfg)

lemma upt_shift:
  "map (\<lambda>k. d * (a + 1 + k)) [1 ..< m + 1] = map (\<lambda>k. d * (a + k)) [Suc (Suc 0) ..< Suc (Suc m)]"
proof -
  have "map (\<lambda>k. d * (a + k)) [Suc (Suc 0) ..< Suc (Suc m)]
      = map (\<lambda>k. d * (a + k)) (map Suc [Suc 0 ..< Suc m])"
    by (simp only: map_Suc_upt)
  also have "\<dots> = map (\<lambda>k. d * (a + Suc k)) [Suc 0 ..< Suc m]"
    by (simp only: map_map comp_def)
  also have "\<dots> = map (\<lambda>k. d * (a + 1 + k)) [1 ..< m + 1]"
    by (simp only: add_Suc_right add_Suc One_nat_def add_0_right add_0)
  finally show ?thesis by (rule sym)
qed

lemma upt_front: "[1 ..< (m + 1) + 1] = Suc 0 # [Suc (Suc 0) ..< Suc (Suc m)]"
  by (simp add: upt_conv_Cons del: upt_Suc)

lemma run_sched:
  assumes "Connected s \<notin> set ins"
  shows "\<exists>m. attempts_of (bridge_run ins b) s = attempts_of b s + m
            \<and> (m = 0 \<or> attempts_of b s + m \<le> cfg_reconnectAttempts b)
            \<and> delays_for s (bridge_run ins b)
                = delays_for s b
                  @ map (\<lambda>k. cfg_reconnectDelayMs b * (attempts_of b s + k)) [1 ..< m + 1]"
  using assms
proof (induction ins arbitrary: b)
  case Nil
  have "attempts_of (bridge_run [] b) s = attempts_of b s + 0
      \<and> ((0::nat) = 0 \<or> attempts_of b s + 0 \<le> cfg_reconnectAttempts b)
      \<and> delays_for s (bridge_run [] b)
          = delays_for s b @ map (\<lambda>k. cfg_reconnectDelayMs b * (attempts_of b s + k)) [1 ..< 0 + 1]"
    by simp
  then show ?case by (rule exI)
next
  case (Cons i ins)
  define c where "c = bridge_step i b"
  from Cons.prems have i: "i \<noteq> Connected s" and rest: "Connected s \<notin> set ins" by auto
  have st: "sched_step s b c" unfolding c_def by (rule step_sched[OF i])
  then have cfg: "cfg_reconnectAttempts c = cfg_reconnectAttempts b"
    "cfg_reconnectDelayMs c = cfg_reconnectDelayMs b"
    by (simp_all add: sched_step_def)
  have run: "bridge_run (i # ins) b = bridge_run ins c" by (simp add: c_def)
  obtain m where IH: "attempts_of (bridge_run ins c) s = attempts_of c s + m
            \<and> (m = 0 \<or> attempts_of c s + m \<le> cfg_reconnectAttempts c)
            \<and> delays_for s (bridge_run ins c)
                = delays_for s c
                  @ map (\<lambda>k. cfg_reconnectDelayMs c * (attempts_of c s + k)) [1 ..< m + 1]"
    using Cons.IH[OF rest, of c] ..
  then have a: "attempts_of (bridge_run ins c) s = attempts_of c s + m"
    and le: "m = 0 \<or> attempts_of c s + m \<le> cfg_reconnectAttempts b"
    and dl: "delays_for s (bridge_run ins c)
              = delays_for s c @ map (\<lambda>k. cfg_reconnectDelayMs b * (attempts_of c s + k)) [1 ..< m + 1]"
    unfolding cfg by simp_all
  show ?case
  proof (cases "delays_for s c = delays_for s b")
    case True
    with st have same: "attempts_of c s = attempts_of b s" by (simp add: sched_step_def)
    have "attempts_of (bridge_run (i # ins) b) s = attempts_of b s + m
      \<and> (m = 0 \<or> attempts_of b s + m \<le> cfg_reconnectAttempts b)
      \<and> delays_for s (bridge_run (i # ins) b)
          = delays_for s b @ map (\<lambda>k. cfg_reconnectDelayMs b * (attempts_of b s + k)) [1 ..< m + 1]"
      unfolding run using a le dl unfolding same True by simp
    then show ?thesis by (rule exI)
  next
    case False
    with st have lt: "attempts_of b s < cfg_reconnectAttempts b"
      and up: "attempts_of c s = attempts_of b s + 1"
      and d1: "delays_for s c = delays_for s b @ [cfg_reconnectDelayMs b * (attempts_of b s + 1)]"
      by (simp_all add: sched_step_def)
    have A: "attempts_of (bridge_run (i # ins) b) s = attempts_of b s + (m + 1)"
      unfolding run a up by simp
    have B: "m + 1 = 0 \<or> attempts_of b s + (m + 1) \<le> cfg_reconnectAttempts b"
      using le lt unfolding up by linarith
    have "delays_for s (bridge_run ins c)
        = (delays_for s b @ [cfg_reconnectDelayMs b * (attempts_of b s + 1)])
          @ map (\<lambda>k. cfg_reconnectDelayMs b * (attempts_of b s + 1 + k)) [1 ..< m + 1]"
      unfolding dl d1 up ..
    also have "\<dots> = delays_for s b
          @ map (\<lambda>k. cfg_reconnectDelayMs b * (attempts_of b s + k)) [1 ..< (m + 1) + 1]"
      unfolding upt_shift upt_front by simp
    finally have C: "delays_for s (bridge_run (i # ins) b)
        = delays_for s b
          @ map (\<lambda>k. cfg_reconnectDelayMs b * (attempts_of b s + k)) [1 ..< (m + 1) + 1]"
      unfolding run .
    from A B C show ?thesis by (intro exI[of _ "m + 1"] conjI)
  qed
qed

text \<open>
  C7. With \<open>reconnect_attempts = 1\<close>: a Kafka error arms the one reconnect attempt; its
  timer fires, \<open>connect()\<close> fails (the orchestrator emits \<open>error\<close> and rejects). The
  attempt is reported as failed, the counter stands at the cap and nothing is pending
  any more, but no \<open>reconnect_failed\<close> event has been emitted.
\<close>

theorem last_attempt_fails_without_terminal_event:
  "cfg_reconnectAttempts single_attempt_exhausted = 1
   \<and> setTimeout_log single_attempt_exhausted = [(kafka_service, 100)]
   \<and> attempts_of single_attempt_exhausted kafka_service = 1
   \<and> timers single_attempt_exhausted = [] \<and> connecting single_attempt_exhausted = []
   \<and> reconnect_attempt_failed kafka_service 1 \<in> set (emitted single_attempt_exhausted)
   \<and> reconnect_failed kafka_service \<notin> set (emitted single_attempt_exhausted)"
  by (simp add: single_attempt_exhausted_def bridge_new_def handleKafkaError_def
      updateOverallHealth_def attemptReconnect_def timer_fires_def connect_settles_def
      attempts_of_def Let_def)

lemma terminal_event:
  assumes "cfg_reconnectAttempts c \<le> attempts_of c s" and "s \<notin> reconnectInProgress c"
  shows "last (emitted (bridge_step (Failed s msg) c)) = reconnect_failed s
     \<and> timers (bridge_step (Failed s msg) c) = timers c
     \<and> setTimeout_log (bridge_step (Failed s msg) c) = setTimeout_log c"
  using assms
  by (cases s)
    (simp_all add: handleRedisError_def handleKafkaError_def updateOverallHealth_def
      attemptReconnect_def attempts_of_def Let_def)

lemma on_connected_resets: "attempts_of (bridge_step (Connected s) c) s = 0"
  by (cases s) (simp_all add: attempts_of_def updateOverallHealth_def Let_def)

text \<open>
  Between two resets of a service's attempt counter (the bridge is new, or the service's
  \<open>connected\<close> event has just been handled, and no further \<open>connected\<close> event of that
  service arrives), whatever else happens and in whatever order, at most
  \<open>reconnect_attempts\<close> reconnect timers are set for the service, and the \<open>k\<close>-th of them
  has the delay \<open>reconnect_delay_ms * k\<close>. When an error of the service is handled while
  its counter stands at the cap and no attempt is marked in progress, \<open>reconnect_failed\<close>
  is emitted and no timer is set.
\<close>

theorem reconnect_cap_and_linear_delay:
  assumes "attempts_of b s = 0" and "Connected s \<notin> set ins"
  shows "(\<exists>m. m \<le> cfg_reconnectAttempts b
            \<and> attempts_of (bridge_run ins b) s = m
            \<and> delays_for s (bridge_run ins b)
                = delays_for s b @ map (\<lambda>k. cfg_reconnectDelayMs b * k) [1 ..< m + 1])
     \<and> attempts_of (bridge_new n d) s = 0
     \<and> attempts_of (bridge_step (Connected s) c) s = 0
     \<and> (cfg_reconnectAttempts c \<le> attempts_of c s \<and> s \<notin> reconnectInProgress c \<longrightarrow>
          last (emitted (bridge_step (Failed s msg) c)) = reconnect_failed s
          \<and> timers (bridge_step (Failed s msg) c) = timers c
          \<and> setTimeout_log (bridge_step (Failed s msg) c) = setTimeout_log c)"
proof -
  from run_sched[OF assms(2), of b] obtain m where
    a: "attempts_of (bridge_run ins b) s = attempts_of b s + m"
    and le: "m = 0 \<or> attempts_of b s + m \<le> cfg_reconnectAttempts b"
    and dl: "delays_for s (bridge_run ins b)
              = delays_for s b @ map (\<lambda>k. cfg_reconnectDelayMs b * (attempts_of b s + k)) [1 ..< m + 1]"
    by (elim exE conjE)
  have "m \<le> cfg_reconnectAttempts b
      \<and> attempts_of (bridge_run ins b) s = m
      \<and> delays_for s (bridge_run ins b)
          = delays_for s b @ map (\<lambda>k. cfg_reconnectDelayMs b * k) [1 ..< m + 1]"
    using a le dl unfolding assms(1) by auto
  then have first: "\<exists>m. m \<le> cfg_reconnectAttempts b
            \<and> attempts_of (bridge_run ins b) s = m
            \<and> delays_for s (bridge_run ins b)
                = delays_for s b @ map (\<lambda>k. cfg_reconnectDelayMs b * k) [1 ..< m + 1]"
    by (rule exI)
  have fresh: "attempts_of (bridge_new n d) s = 0"
    by (simp add: attempts_of_def bridge_new_def)
  from first fresh on_connected_resets[of s c] terminal_event[of c s msg]
  show ?thesis by (intro conjI impI) (assumption | simp)+
qed

theorem reconnect_cap_and_linear_delay_witness:
  "delays_for redis_service three_attempts_exhausted = [100, 200, 300]
   \<and> attempts_of three_attempts_exhausted redis_service = 3
   \<and> cfg_reconnectAttempts three_attempts_exhausted = 3
   \<and> redis_service \<notin> reconnectInProgress three_attempts_exhausted
   \<and> last (emitted (bridge_step (Failed redis_service ''again'') three_attempts_exhausted))
       = reconnect_failed redis_service"
proof -
  have hyp: "attempts_of (bridge_new 3 100) redis_service = 0"
    "Connected redis_service \<notin> set three_failures"
    by (simp_all add: attempts_of_def bridge_new_def three_failures_def)
  have ev: "delays_for redis_service three_attempts_exhausted = [100, 200, 300]"
    "attempts_of three_attempts_exhausted redis_service = 3"
    "cfg_reconnectAttempts three_attempts_exhausted = 3"
    "redis_service \<notin> reconnectInProgress three_attempts_exhausted"
    by (simp_all add: three_attempts_exhausted_def three_failures_def bridge_new_def
        handleRedisError_def updateOverallHealth_def attemptReconnect_def timer_fires_def
        connect_settles_def attempts_of_def delays_for_def Let_def)
  note T = reconnect_cap_and_linear_delay[OF hyp, of 3 100 three_attempts_exhausted "''again''"]
  from T ev have "last (emitted (bridge_step (Failed redis_service ''again'') three_attempts_exhausted))
       = reconnect_failed redis_service"
    by simp
  with ev show ?thesis by simp
qed

end
